theory Spec2Isabelle
  imports Main "HOL-Library.Word"
begin

unbundle bit_operations_syntax

section \<open>Machine state\<close>

text \<open>
  The kernel runs on a 32-bit x86 processor: \<^verbatim>\<open>unsigned long\<close> is a 32-bit word and every
  paging entry is one such word.  Physical memory is a store from physical byte addresses
  to the 32-bit word held there; every pointer the code dereferences is a page-aligned base
  plus four times an index, so only word-aligned cells are ever touched.
\<close>

type_synonym word32 = "32 word"

text \<open>The one field of a \<^verbatim>\<open>PageTable\<close> object: the pointer to its page directory.\<close>

record page_table =
  page_directory :: word32

text \<open>What \<^verbatim>\<open>Console::puts\<close> and \<^verbatim>\<open>Console::putui\<close> have printed, in order.\<close>

datatype out = Puts string | Putui word32

text \<open>
  A frame pool, as far as the paging code can see it: the answers it will give to
  successive requests for one frame.  The pool's own bookkeeping lives elsewhere and is
  not looked at here.
\<close>

type_synonym pool = "word32 list"

text \<open>
  Modelled from the spec: \<^verbatim>\<open>ContFramePool::get_frames\<close> belongs to the frame pool, an
  external collaborator whose code is not among the sources; its contract is
  \<^verbatim>\<open>allocate(count) -> frame_number | NONE\<close>, with frame number 0 as the failure
  sentinel.  A request for one frame takes the pool's next answer; a pool with no answer
  left reports failure.
\<close>

fun get_frames :: "pool \<Rightarrow> word32 \<times> pool" where
  "get_frames [] = (0, [])"
| "get_frames (f # fs) = (f, fs)"

text \<open>
  The processor registers the code reads and writes, physical memory, the static members
  of \<^verbatim>\<open>PageTable\<close> and the console.
\<close>

record state =
  pmem :: "word32 \<Rightarrow> word32"
  cr0 :: word32
  cr2 :: word32
  cr3 :: word32
  current_page_table :: "page_table option"
  paging_enabled :: word32
  kernel_mem_pool :: pool
  process_mem_pool :: pool
  shared_size :: word32
  console :: "out list"

text \<open>
  Modelled from the spec: \<^verbatim>\<open>PAGE_SIZE\<close> is declared in \<^verbatim>\<open>page_table.H\<close>, which is not
  among the sources; the spec fixes a frame of 4 KiB.
\<close>

definition PAGE_SIZE :: word32 where
  "PAGE_SIZE = 4096"

text \<open>
  Modelled from the spec: \<^verbatim>\<open>ENTRIES_PER_PAGE\<close> is declared in \<^verbatim>\<open>page_table.H\<close> as
  well; the spec fixes 1024 entries per directory and per table.
\<close>

definition ENTRIES_PER_PAGE :: nat where
  "ENTRIES_PER_PAGE = 1024"

definition puts :: "string \<Rightarrow> state \<Rightarrow> state" where
  "puts str s = s\<lparr>console := console s @ [Puts str]\<rparr>"

definition putui :: "word32 \<Rightarrow> state \<Rightarrow> state" where
  "putui n s = s\<lparr>console := console s @ [Putui n]\<rparr>"

section \<open>Address translation\<close>

text \<open>
  Every pointer dereference of the code is a virtual access, resolved by the processor
  and not by any code of the kernel.  With the paging bit of \<^verbatim>\<open>CR0\<close> clear the address
  is physical; with the bit set the processor walks the two-level structure rooted at
  \<^verbatim>\<open>CR3\<close> (4 KiB pages, supervisor access, no cached translations): the directory
  entry selected by bits 22..31, then the table entry selected by bits 12..21, each of
  which must have its present bit set.  The accessed and dirty bits that the processor
  sets in the entries it walks are left out: an entry holds what the code stored in it.
  Several properties of the handler rest on this walk: a second-level table is written
  through the recursive window and read back through its physical address.
\<close>

definition paging_on :: "state \<Rightarrow> bool" where
  "paging_on s \<longleftrightarrow> cr0 s AND 0x80000000 \<noteq> 0"

definition page_base :: "word32 \<Rightarrow> word32" where
  "page_base e = e AND NOT 0xFFF"

definition entry_at :: "word32 \<Rightarrow> word32 \<Rightarrow> word32" where
  "entry_at base idx = page_base base OR push_bit 2 (idx AND 0x3FF)"

definition translate :: "state \<Rightarrow> word32 \<Rightarrow> word32 option" where
  "translate s va =
     (if \<not> paging_on s then Some va
      else
        let pde = pmem s (entry_at (cr3 s) (drop_bit 22 va)) in
        if pde AND 1 = 0 then None
        else
          let pte = pmem s (entry_at pde (drop_bit 12 va)) in
          if pte AND 1 = 0 then None
          else Some (page_base pte OR (va AND 0xFFF)))"

text \<open>Reading and writing the word a pointer names; \<open>None\<close> is a page fault.\<close>

definition deref :: "state \<Rightarrow> word32 \<Rightarrow> word32 option" where
  "deref s va = map_option (pmem s) (translate s va)"

definition assign :: "state \<Rightarrow> word32 \<Rightarrow> word32 \<Rightarrow> state option" where
  "assign s va v =
     map_option (\<lambda>pa. s\<lparr>pmem := (pmem s)(pa := v)\<rparr>) (translate s va)"

text \<open>
  A function either returns to its caller or stops at an access the processor cannot
  translate: a fault raised inside the constructor or inside the fault handler itself,
  which the design leaves to the surrounding kernel.
\<close>

datatype 'a outcome = Returned 'a state | Faulted word32 state

fun final :: "'a outcome \<Rightarrow> state" where
  "final (Returned x s) = s"
| "final (Faulted va s) = s"

section \<open>Initialisation, construction and activation\<close>

definition init_paging :: "pool \<Rightarrow> pool \<Rightarrow> word32 \<Rightarrow> state \<Rightarrow> state" where
  "init_paging kpool ppool sz s =
     puts ''Initialized Paging System\<newline>''
       (s\<lparr>kernel_mem_pool := kpool, process_mem_pool := ppool, shared_size := sz\<rparr>)"

text \<open>
  \<^verbatim>\<open>for (int i = 0; i < ENTRIES_PER_PAGE; ++i) tbl[i] = 0;\<close>
  (lines 40--42 and 158--160), from counter \<open>i\<close> on.
\<close>

function clear_entries :: "word32 \<Rightarrow> nat \<Rightarrow> state \<Rightarrow> unit outcome" where
  "clear_entries tbl i s =
     (if i < ENTRIES_PER_PAGE then
        (case assign s (tbl + 4 * of_nat i) 0 of
           None \<Rightarrow> Faulted (tbl + 4 * of_nat i) s
         | Some s' \<Rightarrow> clear_entries tbl (Suc i) s')
      else Returned () s)"
  by pat_completeness auto
termination
  by (relation "measure (\<lambda>(tbl, i, s). ENTRIES_PER_PAGE - i)") auto

text \<open>
  \<^verbatim>\<open>for (int i = 0; i < 1024; ++i) { first_page_table[i] = address | 0x3; address += PAGE_SIZE; }\<close>
  (lines 59--62).
\<close>

function map_first_4MB :: "word32 \<Rightarrow> nat \<Rightarrow> word32 \<Rightarrow> state \<Rightarrow> unit outcome" where
  "map_first_4MB tbl i address s =
     (if i < 1024 then
        (case assign s (tbl + 4 * of_nat i) (address OR 0x3) of
           None \<Rightarrow> Faulted (tbl + 4 * of_nat i) s
         | Some s' \<Rightarrow> map_first_4MB tbl (Suc i) (address + PAGE_SIZE) s')
      else Returned () s)"
  by pat_completeness auto
termination
  by (relation "measure (\<lambda>(tbl, i, address, s). 1024 - i)") auto

text \<open>
  \<^verbatim>\<open>for (int i = 1; i < 1024; ++i) page_directory[i] = 0x2;\<close> (lines 68--70).
\<close>

function mark_not_present :: "word32 \<Rightarrow> nat \<Rightarrow> state \<Rightarrow> unit outcome" where
  "mark_not_present dir i s =
     (if i < 1024 then
        (case assign s (dir + 4 * of_nat i) 0x2 of
           None \<Rightarrow> Faulted (dir + 4 * of_nat i) s
         | Some s' \<Rightarrow> mark_not_present dir (Suc i) s')
      else Returned () s)"
  by pat_completeness auto
termination
  by (relation "measure (\<lambda>(dir, i, s). 1024 - i)") auto

text \<open>
  The part of the constructor after the first table's frame is known to be non-zero
  (lines 51--75).
\<close>

definition build_tables :: "word32 \<Rightarrow> word32 \<Rightarrow> state \<Rightarrow> page_table outcome" where
  "build_tables page_directory_address first_page_table_frame s =
     (let first_page_table_address = first_page_table_frame * PAGE_SIZE in
      case map_first_4MB first_page_table_address 0 0 s of
        Faulted va sf \<Rightarrow> Faulted va sf
      | Returned _ s1 \<Rightarrow>
        (case assign s1 (page_directory_address + 4 * 0) (first_page_table_address OR 0x3) of
           None \<Rightarrow> Faulted (page_directory_address + 4 * 0) s1
         | Some s2 \<Rightarrow>
           (case mark_not_present page_directory_address 1 s2 of
              Faulted va sf \<Rightarrow> Faulted va sf
            | Returned _ s3 \<Rightarrow>
              (case assign s3 (page_directory_address + 4 * of_nat (ENTRIES_PER_PAGE - 1))
                      (page_directory_address OR 0x3) of
                 None \<Rightarrow> Faulted (page_directory_address + 4 * of_nat (ENTRIES_PER_PAGE - 1)) s3
               | Some s4 \<Rightarrow>
                 Returned \<lparr>page_directory = page_directory_address\<rparr>
                   (puts ''Page directory with 4MB direct-mapped allocated\<newline>'' s4)))))"

text \<open>The constructor \<^verbatim>\<open>PageTable::PageTable()\<close> (lines 28--76).\<close>

definition PageTable :: "state \<Rightarrow> page_table outcome" where
  "PageTable s =
     (let (page_directory_frame, kpool1) = get_frames (kernel_mem_pool s);
          s1 = s\<lparr>kernel_mem_pool := kpool1\<rparr>;
          page_directory_address = page_directory_frame * PAGE_SIZE
      in
      case clear_entries page_directory_address 0 s1 of
        Faulted va sf \<Rightarrow> Faulted va sf
      | Returned _ s2 \<Rightarrow>
        (let (first_page_table_frame, kpool2) = get_frames (kernel_mem_pool s2);
             s3 = s2\<lparr>kernel_mem_pool := kpool2\<rparr>
         in
         if first_page_table_frame = 0 then
           Returned \<lparr>page_directory = page_directory_address\<rparr>
             (puts ''Failed to allocate first page table\<newline>'' s3)
         else build_tables page_directory_address first_page_table_frame s3))"

text \<open>\<^verbatim>\<open>PageTable::load()\<close> (lines 82--91), called on the object \<open>this\<close>.\<close>

definition load :: "page_table \<Rightarrow> state \<Rightarrow> state" where
  "load this s =
     (if page_directory this = 0 then puts ''Error: Page directory not set\<newline>'' s
      else puts ''Loaded page table\<newline>''
             (s\<lparr>cr3 := page_directory this, current_page_table := Some this\<rparr>))"

text \<open>\<^verbatim>\<open>PageTable::enable_paging()\<close> (lines 93--100).\<close>

definition enable_paging :: "state \<Rightarrow> state" where
  "enable_paging s =
     puts ''Enabled paging\<newline>''
       (s\<lparr>cr0 := cr0 s OR 0x80000000, paging_enabled := 1\<rparr>)"

section \<open>The fault handler\<close>

text \<open>The two index computations of lines 116 and 117.\<close>

definition pd_index_of :: "word32 \<Rightarrow> word32" where
  "pd_index_of faulting_address = drop_bit 22 faulting_address AND 0x3FF"

definition pt_index_of :: "word32 \<Rightarrow> word32" where
  "pt_index_of faulting_address = drop_bit 12 faulting_address AND 0x3FF"

text \<open>The console output of lines 119--125.\<close>

definition print_fault :: "word32 \<Rightarrow> word32 \<Rightarrow> word32 \<Rightarrow> state \<Rightarrow> state" where
  "print_fault faulting_address pd_index pt_index s =
     puts ''\<newline>'' (putui pt_index (puts ''PTE: '' (putui pd_index (puts ''PDE: ''
       (putui faulting_address (puts ''Page fault at address: '' s))))))"

text \<open>
  The branch taken when the directory entry has its present bit clear (lines 135--178).
\<close>

definition directory_miss :: "page_table \<Rightarrow> word32 \<Rightarrow> word32 \<Rightarrow> state \<Rightarrow> unit outcome" where
  "directory_miss cpt pd_index pt_index s =
     (let s1 = puts ''Allocating new page table\<newline>'' s;
          (new_page_table_frame, kpool) = get_frames (kernel_mem_pool s1);
          s2 = s1\<lparr>kernel_mem_pool := kpool\<rparr>
      in
      if new_page_table_frame = 0 then
        Returned () (puts ''Failed to allocate new page table\<newline>'' s2)
      else
        let new_page_table_address = new_page_table_frame * PAGE_SIZE in
        case assign s2 (page_directory cpt + 4 * pd_index) (new_page_table_address OR 0x3) of
          None \<Rightarrow> Faulted (page_directory cpt + 4 * pd_index) s2
        | Some s3 \<Rightarrow>
          (let s4 = puts ''\<newline>'' (putui new_page_table_address
                      (puts ''New page table allocated at address: '' s3));
               new_page_table = 0xFFC00000 OR push_bit 12 pd_index
           in
           case clear_entries new_page_table 0 s4 of
             Faulted va sf \<Rightarrow> Faulted va sf
           | Returned _ s5 \<Rightarrow>
             (let (entry_frame, ppool) = get_frames (process_mem_pool s5);
                  s6 = s5\<lparr>process_mem_pool := ppool\<rparr>;
                  frame_address = PAGE_SIZE * entry_frame;
                  s7 = puts ''Page table entry before update: '' s6
              in
              case deref s7 (new_page_table + 4 * pt_index) of
                None \<Rightarrow> Faulted (new_page_table + 4 * pt_index) s7
              | Some before \<Rightarrow>
                (let s8 = puts ''\<newline>'' (putui before s7) in
                 case assign s8 (new_page_table + 4 * pt_index) (frame_address OR 0x3) of
                   None \<Rightarrow> Faulted (new_page_table + 4 * pt_index) s8
                 | Some s9 \<Rightarrow>
                   (let s10 = puts ''Page table entry after update: '' s9 in
                    case deref s10 (new_page_table + 4 * pt_index) of
                      None \<Rightarrow> Faulted (new_page_table + 4 * pt_index) s10
                    | Some after \<Rightarrow>
                      Returned ()
                        (puts ''Page fault handled\<newline> ''
                           (puts ''\<newline>'' (putui after s10))))))))"

text \<open>
  The code reached when the directory entry is present (lines 180--214).
\<close>

definition directory_hit :: "page_table \<Rightarrow> word32 \<Rightarrow> word32 \<Rightarrow> state \<Rightarrow> unit outcome" where
  "directory_hit cpt pd_index pt_index s =
     (case deref s (page_directory cpt + 4 * pd_index) of
        None \<Rightarrow> Faulted (page_directory cpt + 4 * pd_index) s
      | Some pde \<Rightarrow>
        (let page_table = pde AND NOT 0xFFF in
         case deref s (page_table + 4 * pt_index) of
           None \<Rightarrow> Faulted (page_table + 4 * pt_index) s
         | Some page_table_entry \<Rightarrow>
           (let s1 = puts ''\<newline>'' (putui page_table_entry
                       (puts ''Page table entry for fault: '' s))
            in
            if page_table_entry AND 0x1 = 0 then
              (let s2 = puts ''Allocating new frame for the page\<newline>'' s1;
                   (new_frame, ppool) = get_frames (process_mem_pool s2);
                   s3 = s2\<lparr>process_mem_pool := ppool\<rparr>
               in
               if new_frame = 0 then
                 Returned () (puts ''Failed to allocate new frame\<newline>'' s3)
               else
                 let new_frame_address = new_frame * PAGE_SIZE in
                 case assign s3 (page_table + 4 * pt_index) (new_frame_address OR 0x3) of
                   None \<Rightarrow> Faulted (page_table + 4 * pt_index) s3
                 | Some s4 \<Rightarrow>
                   Returned ()
                     (puts ''Page fault handled successfully\<newline>''
                        (puts ''\<newline>'' (putui new_frame_address
                           (puts ''New frame allocated at address: '' s4)))))
            else Returned () (puts ''Page fault handled successfully\<newline>'' s1))))"

text \<open>
  \<^verbatim>\<open>PageTable::handle_fault(REGS * _r)\<close> (lines 103--214).  The saved register context
  \<open>r\<close> (the parameter \<^verbatim>\<open>_r\<close>) is of a type declared elsewhere; the handler never looks at it.
\<close>

definition handle_fault :: "'r \<Rightarrow> state \<Rightarrow> unit outcome" where
  "handle_fault r s =
     (case current_page_table s of
        None \<Rightarrow> Returned () (puts ''Error: No current page table loaded\<newline>'' s)
      | Some cpt \<Rightarrow>
        (let faulting_address = cr2 s;
             pd_index = pd_index_of faulting_address;
             pt_index = pt_index_of faulting_address;
             s1 = print_fault faulting_address pd_index pt_index s
         in
         case deref s1 (page_directory cpt + 4 * pd_index) of
           None \<Rightarrow> Faulted (page_directory cpt + 4 * pd_index) s1
         | Some page_directory_entry \<Rightarrow>
           (let s2 = puts ''\<newline>'' (putui page_directory_entry
                       (puts ''Page directory entry for fault: '' s1))
            in
            if page_directory_entry AND 0x1 = 0 then directory_miss cpt pd_index pt_index s2
            else directory_hit cpt pd_index pt_index s2)))"

section \<open>Notions used to state the properties\<close>

text \<open>A page-aligned address: the low twelve bits are clear.\<close>

definition aligned :: "word32 \<Rightarrow> bool" where
  "aligned b \<longleftrightarrow> b AND 0xFFF = 0"

text \<open>
  The bit convention of an entry: the privilege bit (bit 2) is clear, and an entry whose
  present bit (bit 0) is set has its writable bit (bit 1) set.
\<close>

definition entry_ok :: "word32 \<Rightarrow> bool" where
  "entry_ok e \<longleftrightarrow> e AND 4 = 0 \<and> (e AND 1 = 0 \<or> e AND 2 = 2)"

text \<open>
  The situation in which the processor raises a page fault on behalf of the table \<open>cpt\<close>:
  the table has been loaded and paging enabled, its directory is page-aligned and carries
  the recursive entry in its last slot, and the directory entry selected by the faulting
  address can be reached at its physical address (the directory lies in identity-mapped
  memory).
\<close>

definition fault_ready :: "state \<Rightarrow> page_table \<Rightarrow> bool" where
  "fault_ready s cpt \<longleftrightarrow>
     current_page_table s = Some cpt \<and> paging_on s \<and> cr3 s = page_directory cpt \<and>
     aligned (page_directory cpt) \<and>
     pmem s (page_directory cpt + 4 * 1023) = page_directory cpt OR 3 \<and>
     translate s (page_directory cpt + 4 * pd_index_of (cr2 s)) =
       Some (page_directory cpt + 4 * pd_index_of (cr2 s))"

text \<open>
  The second-level table through which the processor resolves the address \<open>va\<close>.
\<close>

definition walk_table :: "state \<Rightarrow> word32 \<Rightarrow> word32" where
  "walk_table s va = page_base (pmem s (entry_at (cr3 s) (drop_bit 22 va)))"

text \<open>
  A retried fault that changes nothing: the handler returns from the first run, and run
  again on the state it left it returns having found the directory entry and the table
  entry present, with memory and both pools as the first run left them.
\<close>

definition quiet_retry :: "'r \<Rightarrow> state \<Rightarrow> page_table \<Rightarrow> bool" where
  "quiet_retry r s cpt \<longleftrightarrow>
     (\<exists>s1 s2. handle_fault r s = Returned () s1 \<and> handle_fault r s1 = Returned () s2 \<and>
        pmem s2 = pmem s1 \<and> kernel_mem_pool s2 = kernel_mem_pool s1 \<and>
        process_mem_pool s2 = process_mem_pool s1 \<and>
        pmem s1 (page_directory cpt + 4 * pd_index_of (cr2 s)) AND 1 \<noteq> 0 \<and>
        pmem s1 (page_base (pmem s1 (page_directory cpt + 4 * pd_index_of (cr2 s))) +
                 4 * pt_index_of (cr2 s)) AND 1 \<noteq> 0 \<and>
        last (console s2) = Puts ''Page fault handled successfully\<newline>'')"

text \<open>
  Memory \<open>m'\<close> comes from memory \<open>m\<close> by a sequence of stores, each of a word that obeys
  the bit convention.
\<close>

inductive entries_written :: "(word32 \<Rightarrow> word32) \<Rightarrow> (word32 \<Rightarrow> word32) \<Rightarrow> bool" where
  none: "entries_written m m"
| store: "entries_written m m' \<Longrightarrow> entry_ok v \<Longrightarrow> entries_written m (m'(pa := v))"

text \<open>
  A state before any table has been loaded, with both pools holding frames.
\<close>

definition boot_state :: state where
  "boot_state =
     \<lparr>pmem = (\<lambda>_. 0), cr0 = 0, cr2 = 0, cr3 = 0, current_page_table = None,
      paging_enabled = 0, kernel_mem_pool = [513, 514, 515], process_mem_pool = [1024, 1025],
      shared_size = 0x400000, console = []\<rparr>"

text \<open>
  A small running system: the directory in frame 1, a first table in frame 2 that maps
  pages 1, 2 and 3 onto themselves, the recursive entry in slot 1023, and a fault pending
  at address \<open>0x00400000\<close> (directory index 1, table index 0).
\<close>

definition demo_mem :: "word32 \<Rightarrow> word32" where
  "demo_mem =
     (\<lambda>_. 0)(0x1000 := 0x2003, 0x1FFC := 0x1003, 0x2004 := 0x1003, 0x2008 := 0x2003,
              0x200C := 0x3003)"

definition demo_state :: state where
  "demo_state =
     \<lparr>pmem = demo_mem, cr0 = 0x80000000, cr2 = 0x00400000, cr3 = 0x1000,
      current_page_table = Some \<lparr>page_directory = 0x1000\<rparr>, paging_enabled = 1,
      kernel_mem_pool = [3], process_mem_pool = [1024], shared_size = 0x400000,
      console = []\<rparr>"

text \<open>
  A boot state whose kernel pool is exhausted, with a non-zero word at physical
  address \<open>0x10\<close>.
\<close>

definition exhausted_state :: state where
  "exhausted_state =
     \<lparr>pmem = (\<lambda>_. 0)(0x10 := 7), cr0 = 0, cr2 = 0, cr3 = 0, current_page_table = None,
      paging_enabled = 0, kernel_mem_pool = [], process_mem_pool = [1024, 1025],
      shared_size = 0x400000, console = []\<rparr>"

text \<open>
  The small running system with a kernel pool whose next frame is frame 9: page 9 is not
  among the pages that the first table maps.
\<close>

definition far_table_state :: state where
  "far_table_state = demo_state\<lparr>kernel_mem_pool := [9]\<rparr>"

text \<open>
  A boot state whose kernel pool answers frames 513 and 514, both below 4 MiB, and then
  frame 2048, which lies at 8 MiB, beyond the region that the constructor maps onto
  itself.
\<close>

definition far_pool_state :: state where
  "far_pool_state = boot_state\<lparr>kernel_mem_pool := [513, 514, 2048]\<rparr>"

section \<open>Word arithmetic of entries and pages\<close>

declare clear_entries.simps [simp del] map_first_4MB.simps [simp del]
  mark_not_present.simps [simp del]

lemma m12: "(0xFFF::word32) = mask 12"
  by (simp add: mask_eq_exp_minus_1)

lemma m10: "(0x3FF::word32) = mask 10"
  by (simp add: mask_eq_exp_minus_1)

lemma m2: "(3::word32) = mask 2"
  by (simp add: mask_eq_exp_minus_1)

lemma m22: "(0xFFC00000::word32) = NOT (mask 22)"
  by (simp add: mask_eq_exp_minus_1)

lemma four_mult: "(4::word32) * x = push_bit 2 x"
  by (simp add: push_bit_eq_mult)

lemma page_mult: "f * PAGE_SIZE = push_bit 12 f"
  by (simp add: push_bit_eq_mult PAGE_SIZE_def)

lemma page_base_mask: "page_base e = e AND NOT (mask 12)"
  by (simp add: page_base_def m12)

lemma page_base_alt: "e AND - 4096 = page_base e"
  by (simp add: page_base_def)

lemma aligned_bit: "aligned b \<Longrightarrow> n < 12 \<Longrightarrow> \<not> bit b n"
proof -
  assume "aligned b" "n < 12"
  then have "bit (b AND mask 12) n = bit (0::word32) n"
    by (simp add: aligned_def m12)
  with \<open>n < 12\<close> show ?thesis by (simp add: bit_simps)
qed

lemma aligned_frame: "aligned (f * PAGE_SIZE)"
  by (simp add: aligned_def m12 page_mult bit_eq_iff bit_simps)

lemma aligned_page_base: "aligned (page_base e)"
  by (simp add: aligned_def m12 page_base_mask bit_eq_iff bit_simps)

lemma page_base_aligned: "aligned b \<Longrightarrow> page_base b = b"
proof -
  assume a: "aligned b"
  show ?thesis unfolding page_base_mask
    by (rule bit_eqI) (use aligned_bit[OF a] in \<open>auto simp: bit_simps\<close>)
qed

lemma page_base_flags: "aligned b \<Longrightarrow> page_base (b OR 3) = b"
proof -
  assume a: "aligned b"
  show ?thesis unfolding page_base_mask m2
    by (rule bit_eqI) (use aligned_bit[OF a] in \<open>auto simp: bit_simps\<close>)
qed

lemma flags_present: "(b OR 3) AND 1 = (1::word32)"
  unfolding m2 by (rule bit_eqI) (auto simp: bit_simps)

lemma entry_at_add: "aligned b \<Longrightarrow> b + 4 * (x AND 0x3FF) = entry_at b x"
proof -
  assume a: "aligned b"
  have d: "b AND push_bit 2 (x AND mask 10) = 0"
    by (rule bit_eqI) (use aligned_bit[OF a] in \<open>auto simp: bit_simps\<close>)
  show ?thesis
    unfolding entry_at_def four_mult m10 page_base_aligned[OF a]
    using disjunctive_add_eq_or[OF d] by simp
qed

lemma of_nat_idx: "i < 1024 \<Longrightarrow> (of_nat i :: word32) AND 0x3FF = of_nat i"
  unfolding m10
  by (simp add: take_bit_eq_mask[symmetric] take_bit_of_nat take_bit_nat_eq_self)

lemma page_base_entry_at: "page_base (entry_at b x) = page_base b"
  unfolding entry_at_def page_base_mask m10 by (rule bit_eqI) (auto simp: bit_simps)

lemma offset_entry_at: "entry_at b x AND 0xFFF = push_bit 2 (x AND 0x3FF)"
  unfolding entry_at_def page_base_mask m12 m10 by (rule bit_eqI) (auto simp: bit_simps)

lemma push2_inj:
  "push_bit 2 (x AND mask 10) = push_bit 2 (y AND mask 10) \<Longrightarrow>
   x AND mask 10 = (y AND mask 10 :: word32)"
proof -
  assume e: "push_bit 2 (x AND mask 10) = push_bit 2 (y AND mask 10)"
  have "drop_bit 2 (push_bit 2 (z AND mask 10)) = z AND mask 10" for z :: word32
    by (rule bit_eqI) (auto simp: bit_simps)
  with e show ?thesis by metis
qed

lemma entry_at_eq_iff:
  "entry_at b x = entry_at b' y \<longleftrightarrow>
   page_base b = page_base b' \<and> x AND 0x3FF = y AND 0x3FF"
proof
  assume e: "entry_at b x = entry_at b' y"
  have 1: "page_base b = page_base b'"
    using arg_cong[OF e, of page_base] by (simp add: page_base_entry_at)
  have "push_bit 2 (x AND 0x3FF) = push_bit 2 (y AND 0x3FF)"
    using arg_cong[OF e, of "\<lambda>a. a AND 0xFFF"] by (simp add: offset_entry_at)
  then have "x AND 0x3FF = y AND 0x3FF"
    unfolding m10 by (rule push2_inj)
  with 1 show "page_base b = page_base b' \<and> x AND 0x3FF = y AND 0x3FF"
    by simp
next
  assume "page_base b = page_base b' \<and> x AND 0x3FF = y AND 0x3FF"
  then show "entry_at b x = entry_at b' y"
    by (simp add: entry_at_def)
qed

lemma window_or:
  "(0xFFC00000 OR push_bit 12 (p AND 0x3FF)) + 4 * (x AND 0x3FF) =
   ((0xFFC00000::word32) OR push_bit 12 (p AND 0x3FF)) OR push_bit 2 (x AND 0x3FF)"
proof -
  have d: "(NOT (mask 22) OR push_bit 12 (p AND mask 10)) AND push_bit 2 (x AND mask 10)
             = (0::word32)"
    by (rule bit_eqI) (auto simp: bit_simps)
  show ?thesis
    unfolding four_mult m10 m22 using disjunctive_add_eq_or[OF d] by simp
qed

lemma window_dir:
  "drop_bit 22 ((0xFFC00000 OR push_bit 12 (p AND 0x3FF)) + 4 * (x AND 0x3FF)) AND 0x3FF
     = (0x3FF::word32)"
  unfolding window_or unfolding m10 m22 by (rule bit_eqI) (auto simp: bit_simps)

lemma window_tbl:
  "drop_bit 12 ((0xFFC00000 OR push_bit 12 (p AND 0x3FF)) + 4 * (x AND 0x3FF)) AND 0x3FF
     = (p AND 0x3FF::word32)"
  unfolding window_or unfolding m10 m22 by (rule bit_eqI) (auto simp: bit_simps)

lemma window_off:
  "((0xFFC00000 OR push_bit 12 (p AND 0x3FF)) + 4 * (x AND 0x3FF)) AND 0xFFF
     = push_bit 2 (x AND 0x3FF::word32)"
  unfolding window_or unfolding m10 m12 m22 by (rule bit_eqI) (auto simp: bit_simps)

lemma bit_pd_index_of: "bit (pd_index_of a) n \<longleftrightarrow> n < 10 \<and> bit a (n + 22)"
  unfolding pd_index_of_def m10 by (auto simp: bit_simps add.commute)

lemma bit_pt_index_of: "bit (pt_index_of a) n \<longleftrightarrow> n < 10 \<and> bit a (n + 12)"
  unfolding pt_index_of_def m10 by (auto simp: bit_simps add.commute)

section \<open>What leaves translation and memory alone\<close>

lemma translate_console [simp]: "translate (s\<lparr>console := c\<rparr>) = translate s"
  by (rule ext) (simp add: translate_def paging_on_def Let_def)

lemma translate_kpool [simp]: "translate (s\<lparr>kernel_mem_pool := p\<rparr>) = translate s"
  by (rule ext) (simp add: translate_def paging_on_def Let_def)

lemma translate_ppool [simp]: "translate (s\<lparr>process_mem_pool := p\<rparr>) = translate s"
  by (rule ext) (simp add: translate_def paging_on_def Let_def)

lemma deref_console [simp]: "deref (s\<lparr>console := c\<rparr>) = deref s"
  by (rule ext) (simp add: deref_def)

lemma deref_kpool [simp]: "deref (s\<lparr>kernel_mem_pool := p\<rparr>) = deref s"
  by (rule ext) (simp add: deref_def)

lemma deref_ppool [simp]: "deref (s\<lparr>process_mem_pool := p\<rparr>) = deref s"
  by (rule ext) (simp add: deref_def)

lemma pmem_puts [simp]: "pmem (puts str s) = pmem s"
  by (simp add: puts_def)

lemma pmem_putui [simp]: "pmem (putui n s) = pmem s"
  by (simp add: putui_def)

lemma assignD:
  "assign s va v = Some s' \<Longrightarrow>
   \<exists>pa. translate s va = Some pa \<and> s' = s\<lparr>pmem := (pmem s)(pa := v)\<rparr>"
  by (auto simp: assign_def)

lemma finalR: "f = Returned x t' \<Longrightarrow> final f = t'"
  by simp

lemma finalF: "f = Faulted x t' \<Longrightarrow> final f = t'"
  by simp

text \<open>
  A property of states that every zeroing store keeps holds when the clearing loop stops,
  wherever it stops.
\<close>

lemma clear_entries_invariant:
  assumes asg: "\<And>s va s'. P s \<Longrightarrow> assign s va 0 = Some s' \<Longrightarrow> P s'"
  shows "P s \<Longrightarrow> P (final (clear_entries tbl i s))"
proof (induction tbl i s rule: clear_entries.induct)
  case (1 tbl i s)
  show ?case
  proof (cases "i < ENTRIES_PER_PAGE")
    case False
    with "1.prems" show ?thesis
      by (simp add: clear_entries.simps[of tbl i s])
  next
    case True
    show ?thesis
    proof (cases "assign s (tbl + 4 * of_nat i) 0")
      case None
      with True "1.prems" show ?thesis
        by (simp add: clear_entries.simps[of tbl i s])
    next
      case (Some s')
      have "P s'" using asg[OF "1.prems" Some] .
      with True "1.IH"[OF True Some] Some show ?thesis
        by (simp add: clear_entries.simps[of tbl i s])
    qed
  qed
qed

lemma clear_entries_shape: "\<exists>m. final (clear_entries tbl i s) = s\<lparr>pmem := m\<rparr>"
  by (rule clear_entries_invariant[where P = "\<lambda>t. \<exists>m. t = s\<lparr>pmem := m\<rparr>"])
     (auto dest!: assignD intro: exI[of _ "pmem s"])

lemma clear_entries_mem:
  assumes upd: "\<And>m pa. Q m \<Longrightarrow> Q (m(pa := 0))"
  shows "Q (pmem s) \<Longrightarrow> Q (pmem (final (clear_entries tbl i s)))"
  by (rule clear_entries_invariant[where P = "\<lambda>t. Q (pmem t)"])
     (auto dest!: assignD intro: upd)

lemma console_clear_entries [simp]: "console (final (clear_entries tbl i s)) = console s"
  using clear_entries_shape[of tbl i s] by auto

section \<open>The console trace of the handler\<close>

lemma directory_miss_console:
  "\<exists>ys. console (final (directory_miss cpt pd pt s)) = console s @ ys"
  unfolding directory_miss_def Let_def
  by (auto split: prod.splits option.splits outcome.splits simp: puts_def putui_def
        dest!: assignD finalR[of "clear_entries _ _ _"] finalF[of "clear_entries _ _ _"])

lemma directory_hit_console:
  "\<exists>ys. console (final (directory_hit cpt pd pt s)) = console s @ ys"
  unfolding directory_hit_def Let_def
  by (auto split: prod.splits option.splits outcome.splits simp: puts_def putui_def
        dest!: assignD)

lemma console_print_fault:
  "console (print_fault a pd pt s) =
     console s @ [Puts ''Page fault at address: '', Putui a, Puts ''PDE: '', Putui pd,
                  Puts ''PTE: '', Putui pt, Puts ''\<newline>'']"
  by (simp add: print_fault_def puts_def putui_def)

lemma handle_fault_console:
  assumes "current_page_table s = Some cpt"
  shows "\<exists>ys. console (final (handle_fault r s)) =
           console (print_fault (cr2 s) (pd_index_of (cr2 s)) (pt_index_of (cr2 s)) s) @ ys"
proof -
  define pd where "pd = pd_index_of (cr2 s)"
  define pt where "pt = pt_index_of (cr2 s)"
  define s1 where "s1 = print_fault (cr2 s) pd pt s"
  show ?thesis
  proof (cases "deref s1 (page_directory cpt + 4 * pd)")
    case None
    with assms have "handle_fault r s = Faulted (page_directory cpt + 4 * pd) s1"
      by (simp add: handle_fault_def Let_def s1_def pd_def pt_def)
    then show ?thesis
      by (simp add: s1_def pd_def pt_def)
  next
    case (Some e)
    define s2 where
      "s2 = puts ''\<newline>'' (putui e (puts ''Page directory entry for fault: '' s1))"
    have c2: "console s2 =
        console s1 @ [Puts ''Page directory entry for fault: '', Putui e, Puts ''\<newline>'']"
      by (simp add: s2_def puts_def putui_def)
    have hf: "handle_fault r s =
        (if e AND 1 = 0 then directory_miss cpt pd pt s2 else directory_hit cpt pd pt s2)"
      using assms Some by (simp add: handle_fault_def Let_def s1_def s2_def pd_def pt_def)
    obtain ys where "console (final (handle_fault r s)) = console s2 @ ys"
      using directory_miss_console[of cpt pd pt s2] directory_hit_console[of cpt pd pt s2] hf
      by (auto split: if_splits)
    with c2 show ?thesis
      by (simp add: s1_def pd_def pt_def)
  qed
qed

section \<open>Slots of a page and the recursive window\<close>

lemma idx_unat: "x AND 0x3FF = x \<Longrightarrow> unat (x::word32) < 1024"
proof -
  assume "x AND 0x3FF = x"
  then have "x \<le> 0x3FF" by (metis word_and_le1)
  then have "unat x \<le> unat (0x3FF::word32)" by (simp only: word_le_nat_alt)
  then show ?thesis by simp
qed

lemma of_nat_idx_inj: "i < 1024 \<Longrightarrow> j < 1024 \<Longrightarrow> (of_nat i :: word32) = of_nat j \<longleftrightarrow> i = j"
proof
  assume b: "i < 1024" "j < 1024" and e: "(of_nat i :: word32) = of_nat j"
  have "unat (of_nat i :: word32) = i" "unat (of_nat j :: word32) = j"
    using b by (simp_all add: unat_of_nat)
  with e show "i = j" by metis
qed simp

lemma pd_index_idx [simp]: "pd_index_of a AND 0x3FF = pd_index_of a"
  by (simp add: pd_index_of_def and.assoc)
lemma pt_index_idx [simp]: "pt_index_of a AND 0x3FF = pt_index_of a"
  by (simp add: pt_index_of_def and.assoc)

lemma slot_eq_iff:
  "aligned b \<Longrightarrow> aligned b' \<Longrightarrow> x AND 0x3FF = x \<Longrightarrow> y AND 0x3FF = y \<Longrightarrow>
   b + 4 * x = b' + 4 * y \<longleftrightarrow> b = b' \<and> x = y"
  using entry_at_add[of b x] entry_at_add[of b' y] entry_at_eq_iff[of b x b' y]
  by (simp add: page_base_aligned)

lemma page_base_slot: "aligned b \<Longrightarrow> x AND 0x3FF = x \<Longrightarrow> page_base (b + 4 * x) = b"
  using entry_at_add[of b x] by (simp add: page_base_entry_at page_base_aligned)

lemma translate_window:
  assumes "paging_on s" "aligned (cr3 s)" "pmem s (cr3 s + 4 * 1023) = cr3 s OR 3"
    and p: "p AND 0x3FF = p" and x: "x AND 0x3FF = x"
    and e: "pmem s (cr3 s + 4 * p) AND 1 \<noteq> 0"
  shows "translate s ((0xFFC00000 OR push_bit 12 p) + 4 * x) =
           Some (page_base (pmem s (cr3 s + 4 * p)) + 4 * x)"
proof -
  let ?va = "(0xFFC00000 OR push_bit 12 p) + 4 * x"
  have a1: "entry_at (cr3 s) (drop_bit 22 ?va) = cr3 s + 4 * 1023"
    using window_dir[of p x] entry_at_add[OF assms(2), of 1023] p x
    by (simp add: entry_at_def)
  have pde: "pmem s (entry_at (cr3 s) (drop_bit 22 ?va)) = cr3 s OR 3"
    using a1 assms(3) by simp
  have a2: "entry_at (cr3 s OR 3) (drop_bit 12 ?va) = cr3 s + 4 * p"
    using window_tbl[of p x] entry_at_add[OF assms(2), of p] p x
    by (simp add: entry_at_def page_base_flags[OF assms(2)] page_base_aligned[OF assms(2)])
  have off: "?va AND 0xFFF = 4 * x"
    using window_off[of p x] p x by (simp add: four_mult)
  have res: "page_base e OR 4 * x = page_base e + 4 * x" for e
    using entry_at_add[OF aligned_page_base, of e x] x
    by (simp add: entry_at_def four_mult page_base_aligned[OF aligned_page_base])
  show ?thesis
    using assms(1) e
    by (simp add: translate_def Let_def pde flags_present a2 off res)
qed


lemma paging_on_pmem [simp]: "paging_on (s\<lparr>pmem := m\<rparr>) = paging_on s"
  by (simp add: paging_on_def)
lemma paging_on_console [simp]: "paging_on (s\<lparr>console := m\<rparr>) = paging_on s"
  by (simp add: paging_on_def)
lemma paging_on_kpool [simp]: "paging_on (s\<lparr>kernel_mem_pool := m\<rparr>) = paging_on s"
  by (simp add: paging_on_def)
lemma paging_on_ppool [simp]: "paging_on (s\<lparr>process_mem_pool := m\<rparr>) = paging_on s"
  by (simp add: paging_on_def)

lemma assign_window:
  assumes "paging_on s" "cr3 s = D" "pmem s = m" "aligned D" "m (D + 4 * 1023) = D OR 3"
    and p: "p AND 0x3FF = p" and x: "x AND 0x3FF = x"
    and e: "m (D + 4 * p) = N OR 3" and N: "aligned N"
  shows "assign s ((0xFFC00000 OR push_bit 12 p) + 4 * x) v =
           Some (s\<lparr>pmem := m(N + 4 * x := v)\<rparr>)"
  using translate_window[of s p x] assms
  by (simp add: assign_def flags_present page_base_flags[OF N])

lemma deref_window:
  assumes "paging_on s" "cr3 s = D" "pmem s = m" "aligned D" "m (D + 4 * 1023) = D OR 3"
    and p: "p AND 0x3FF = p" and x: "x AND 0x3FF = x"
    and e: "m (D + 4 * p) = N OR 3" and N: "aligned N"
  shows "deref s ((0xFFC00000 OR push_bit 12 p) + 4 * x) = Some (m (N + 4 * x))"
  using translate_window[of s p x] assms
  by (simp add: deref_def flags_present page_base_flags[OF N])

lemma clear_window:
  assumes D: "aligned D" and N: "aligned N" and ND: "N \<noteq> D" and p: "p AND 0x3FF = p"
  shows "paging_on s \<Longrightarrow> cr3 s = D \<Longrightarrow> pmem s (D + 4 * 1023) = D OR 3 \<Longrightarrow>
         pmem s (D + 4 * p) = N OR 3 \<Longrightarrow>
         \<exists>m. clear_entries (0xFFC00000 OR push_bit 12 p) i s = Returned () (s\<lparr>pmem := m\<rparr>) \<and>
             (\<forall>j. i \<le> j \<and> j < 1024 \<longrightarrow> m (N + 4 * of_nat j) = 0) \<and>
             (\<forall>a. (\<forall>j. i \<le> j \<and> j < 1024 \<longrightarrow> a \<noteq> N + 4 * of_nat j) \<longrightarrow> m a = pmem s a)"
proof (induction "0xFFC00000 OR push_bit 12 p" i s rule: clear_entries.induct)
  case (1 i s)
  let ?W = "0xFFC00000 OR push_bit 12 p"
  show ?case
  proof (cases "i < ENTRIES_PER_PAGE")
    case False
    then have "clear_entries ?W i s = Returned () (s\<lparr>pmem := pmem s\<rparr>)"
      by (simp add: clear_entries.simps[of ?W i s])
    moreover from False have "\<not> i < 1024" by (simp add: ENTRIES_PER_PAGE_def)
    ultimately show ?thesis by (intro exI[of _ "pmem s"]) auto
  next
    case True
    then have i: "i < 1024" by (simp add: ENTRIES_PER_PAGE_def)
    let ?s' = "s\<lparr>pmem := (pmem s)(N + 4 * of_nat i := 0)\<rparr>"
    have asg: "assign s (?W + 4 * of_nat i) 0 = Some ?s'"
      using assign_window[OF "1.prems"(1,2) refl D "1.prems"(3) p of_nat_idx[OF i] "1.prems"(4) N] by simp
    have far: "N + 4 * of_nat i \<noteq> D + 4 * y" if "y AND 0x3FF = y" for y
      using slot_eq_iff[OF N D of_nat_idx[OF i] that] ND by simp
    have k1: "pmem ?s' (D + 4 * 1023) = D OR 3"
      using far[of 1023] "1.prems" by simp
    have k2: "pmem ?s' (D + 4 * p) = N OR 3"
      using far[OF p] "1.prems" by simp
    obtain m where m: "clear_entries ?W (Suc i) ?s' = Returned () (?s'\<lparr>pmem := m\<rparr>)"
      and mz: "\<forall>j. Suc i \<le> j \<and> j < 1024 \<longrightarrow> m (N + 4 * of_nat j) = 0"
      and mo: "\<forall>a. (\<forall>j. Suc i \<le> j \<and> j < 1024 \<longrightarrow> a \<noteq> N + 4 * of_nat j) \<longrightarrow> m a = pmem ?s' a"
      using "1.hyps"[OF True asg _ _ k1 k2] "1.prems" by auto
    have run: "clear_entries ?W i s = Returned () (s\<lparr>pmem := m\<rparr>)"
      using True asg m by (simp add: clear_entries.simps[of ?W i s])
    have dist: "N + 4 * of_nat i \<noteq> N + 4 * of_nat j" if "Suc i \<le> j" "j < 1024" for j
      using slot_eq_iff[OF N N of_nat_idx[OF i] of_nat_idx[OF that(2)]]
        of_nat_idx_inj[OF i that(2)] that by simp
    have mi: "m (N + 4 * of_nat i) = 0"
      using mo dist by simp
    have z: "m (N + 4 * of_nat j) = 0" if "i \<le> j" "j < 1024" for j
      using that mi mz by (cases "j = i") auto
    have o: "m a = pmem s a" if "\<forall>j. i \<le> j \<and> j < 1024 \<longrightarrow> a \<noteq> N + 4 * of_nat j" for a
    proof -
      have "a \<noteq> N + 4 * of_nat i" using that i by auto
      moreover have "\<forall>j. Suc i \<le> j \<and> j < 1024 \<longrightarrow> a \<noteq> N + 4 * of_nat j" using that by auto
      ultimately show ?thesis using mo by simp
    qed
    show ?thesis using run z o by blast
  qed
qed


lemma of_nat_unat_idx: "of_nat (unat (x::word32)) = x" by simp

lemma directory_miss_result:
  assumes on: "paging_on s" and cr: "cr3 s = page_directory cpt"
    and D: "aligned (page_directory cpt)"
    and self: "pmem s (page_directory cpt + 4 * 1023) = page_directory cpt OR 3"
    and pd: "pd AND 0x3FF = pd" and pt: "pt AND 0x3FF = pt"
    and idm: "translate s (page_directory cpt + 4 * pd) = Some (page_directory cpt + 4 * pd)"
    and absent: "pmem s (page_directory cpt + 4 * pd) AND 1 = 0"
    and k: "get_frames (kernel_mem_pool s) = (k, kp)" "k \<noteq> 0"
      "k * PAGE_SIZE \<noteq> page_directory cpt"
    and e: "get_frames (process_mem_pool s) = (e, pp)"
  shows "\<exists>m. directory_miss cpt pd pt s =
           Returned () (s\<lparr>pmem := m, kernel_mem_pool := kp, process_mem_pool := pp,
             console := console s @
               [Puts ''Allocating new page table\<newline>'',
                Puts ''New page table allocated at address: '', Putui (k * PAGE_SIZE),
                Puts ''\<newline>'', Puts ''Page table entry before update: '', Putui 0,
                Puts ''\<newline>'', Puts ''Page table entry after update: '',
                Putui (PAGE_SIZE * e OR 3), Puts ''\<newline>'',
                Puts ''Page fault handled\<newline> '']\<rparr>) \<and>
           m (page_directory cpt + 4 * pd) = k * PAGE_SIZE OR 3 \<and>
           m (k * PAGE_SIZE + 4 * pt) = PAGE_SIZE * e OR 3 \<and>
           (\<forall>j. j < 1024 \<and> of_nat j \<noteq> pt \<longrightarrow> m (k * PAGE_SIZE + 4 * of_nat j) = 0) \<and>
           (\<forall>a. a \<noteq> page_directory cpt + 4 * pd \<and>
                (\<forall>j. j < 1024 \<longrightarrow> a \<noteq> k * PAGE_SIZE + 4 * of_nat j) \<longrightarrow> m a = pmem s a)"
proof -
  define Dr where "Dr = page_directory cpt"
  define N where "N = k * PAGE_SIZE"
  define E where "E = PAGE_SIZE * e OR 3"
  let ?W = "0xFFC00000 OR push_bit 12 pd"
  have N: "aligned N" by (simp add: N_def aligned_frame)
  have D': "aligned Dr" using D by (simp add: Dr_def)
  have ND: "N \<noteq> Dr" using k(3) by (simp add: N_def Dr_def)
  have pd1023: "pd \<noteq> 1023"
    using absent self flags_present[of "page_directory cpt"] by auto
  have dslot: "Dr + 4 * pd \<noteq> Dr + 4 * 1023"
    using slot_eq_iff[OF D' D' pd, of 1023] pd1023 by simp
  have far: "N + 4 * x \<noteq> Dr + 4 * y" if "x AND 0x3FF = x" "y AND 0x3FF = y" for x y
    using slot_eq_iff[OF N D' that] ND by simp
  let ?s1 = "puts ''Allocating new page table\<newline>'' s"
  let ?s2 = "?s1\<lparr>kernel_mem_pool := kp\<rparr>"
  let ?s3 = "?s2\<lparr>pmem := (pmem ?s2)(Dr + 4 * pd := N OR 3)\<rparr>"
  let ?s4 = "puts ''\<newline>'' (putui N (puts ''New page table allocated at address: '' ?s3))"
  have f1: "get_frames (kernel_mem_pool ?s1) = (k, kp)"
    using k(1) by (simp add: puts_def)
  have f2: "assign ?s2 (Dr + 4 * pd) (N OR 3) = Some ?s3"
    using idm by (simp add: assign_def Dr_def puts_def)
  have on4: "paging_on ?s4" using on by (simp add: paging_on_def puts_def putui_def)
  have cr4: "cr3 ?s4 = Dr" using cr by (simp add: Dr_def puts_def putui_def)
  have self4: "pmem ?s4 (Dr + 4 * 1023) = Dr OR 3"
    using self dslot by (simp add: Dr_def)
  have pde4: "pmem ?s4 (Dr + 4 * pd) = N OR 3" by simp
  obtain m5 where f5: "clear_entries ?W 0 ?s4 = Returned () (?s4\<lparr>pmem := m5\<rparr>)"
    and z5: "\<forall>j. j < 1024 \<longrightarrow> m5 (N + 4 * of_nat j) = 0"
    and o5: "\<forall>a. (\<forall>j. j < 1024 \<longrightarrow> a \<noteq> N + 4 * of_nat j) \<longrightarrow> m5 a = pmem ?s4 a"
    using clear_window[OF D' N ND pd on4 cr4 self4 pde4, of 0] by auto
  let ?s5 = "?s4\<lparr>pmem := m5\<rparr>"
  let ?s6 = "?s5\<lparr>process_mem_pool := pp\<rparr>"
  let ?s7 = "puts ''Page table entry before update: '' ?s6"
  let ?s8 = "puts ''\<newline>'' (putui 0 ?s7)"
  let ?s9 = "?s8\<lparr>pmem := (pmem ?s8)(N + 4 * pt := E)\<rparr>"
  let ?s10 = "puts ''Page table entry after update: '' ?s9"
  have f6: "get_frames (process_mem_pool ?s5) = (e, pp)"
    using e by (simp add: puts_def putui_def)
  have notN: "Dr + 4 * y \<noteq> N + 4 * of_nat j" if "y AND 0x3FF = y" "j < 1024" for y j
    using far[OF of_nat_idx[OF that(2)] that(1)] by metis
  have self5: "m5 (Dr + 4 * 1023) = Dr OR 3"
    using o5 notN[of 1023] self4 by simp
  have pde5: "m5 (Dr + 4 * pd) = N OR 3"
    using o5 notN[OF pd] pde4 by simp
  have ptn: "unat pt < 1024" using idx_unat[OF pt] .
  have pt5: "m5 (N + 4 * pt) = 0"
    using z5 ptn by (metis of_nat_unat_idx)
  have on7: "paging_on ?s7" "cr3 ?s7 = Dr" "pmem ?s7 = m5"
    using on4 cr4 by (simp_all add: paging_on_def puts_def putui_def)
  have f7: "deref ?s7 (?W + 4 * pt) = Some 0"
    using deref_window[OF on7 D' self5 pd pt pde5 N] pt5 by simp
  have on8: "paging_on ?s8" "cr3 ?s8 = Dr" "pmem ?s8 = m5"
    using on4 cr4 by (simp_all add: paging_on_def puts_def putui_def)
  have f8: "assign ?s8 (?W + 4 * pt) E = Some ?s9"
    using assign_window[OF on8 D' self5 pd pt pde5 N, of E] on8(3) by simp
  let ?m9 = "m5(N + 4 * pt := E)"
  have on10: "paging_on ?s10" "cr3 ?s10 = Dr" "pmem ?s10 = ?m9"
    using on4 cr4 by (simp_all add: paging_on_def puts_def putui_def)
  have self9: "?m9 (Dr + 4 * 1023) = Dr OR 3"
    using self5 far[OF pt, of 1023] by simp
  have pde9: "?m9 (Dr + 4 * pd) = N OR 3"
    using pde5 far[OF pt pd] by simp
  have f10: "deref ?s10 (?W + 4 * pt) = Some E"
    using deref_window[OF on10 D' self9 pd pt pde9 N] by simp
  have run: "directory_miss cpt pd pt s =
     Returned () (puts ''Page fault handled\<newline> '' (puts ''\<newline>'' (putui E ?s10)))"
    unfolding directory_miss_def Let_def Dr_def[symmetric]
    using k(2) f1 f2 f5 f6 f7 f8 f10
    by (simp only: N_def[symmetric] E_def[symmetric] prod.case if_False option.case outcome.case)
  have fin: "puts ''Page fault handled\<newline> '' (puts ''\<newline>'' (putui E ?s10)) =
      s\<lparr>pmem := ?m9, kernel_mem_pool := kp, process_mem_pool := pp,
             console := console s @
               [Puts ''Allocating new page table\<newline>'',
                Puts ''New page table allocated at address: '', Putui N,
                Puts ''\<newline>'', Puts ''Page table entry before update: '', Putui 0,
                Puts ''\<newline>'', Puts ''Page table entry after update: '',
                Putui E, Puts ''\<newline>'',
                Puts ''Page fault handled\<newline> '']\<rparr>"
    by (simp add: puts_def putui_def)
  have A: "?m9 (Dr + 4 * pd) = N OR 3" by (rule pde9)
  have B: "?m9 (N + 4 * pt) = E" by simp
  have C: "?m9 (N + 4 * of_nat j) = 0" if "j < 1024" "of_nat j \<noteq> pt" for j
    using z5 that slot_eq_iff[OF N N of_nat_idx[OF that(1)] pt] by simp
  have F: "?m9 a = pmem s a"
    if "a \<noteq> Dr + 4 * pd" "\<forall>j. j < 1024 \<longrightarrow> a \<noteq> N + 4 * of_nat j" for a
  proof -
    have "a \<noteq> N + 4 * pt" using that(2) ptn by (metis of_nat_unat_idx)
    then have "?m9 a = m5 a" by simp
    also have "\<dots> = pmem ?s4 a" using o5 that(2) by simp
    also have "\<dots> = pmem s a" using that(1) by simp
    finally show ?thesis .
  qed
  have res: "directory_miss cpt pd pt s =
      Returned () (s\<lparr>pmem := ?m9, kernel_mem_pool := kp, process_mem_pool := pp,
             console := console s @
               [Puts ''Allocating new page table\<newline>'',
                Puts ''New page table allocated at address: '', Putui N,
                Puts ''\<newline>'', Puts ''Page table entry before update: '', Putui 0,
                Puts ''\<newline>'', Puts ''Page table entry after update: '',
                Putui E, Puts ''\<newline>'',
                Puts ''Page fault handled\<newline> '']\<rparr>)"
    unfolding fin[symmetric] by (rule run)
  show ?thesis
    unfolding Dr_def[symmetric] N_def[symmetric] E_def[symmetric]
    by (intro exI[of _ ?m9] conjI allI impI) (use res A B C F in auto)
qed

section \<open>The recursive slot under the handler\<close>

lemma translate_window_full:
  assumes "paging_on s" "cr3 s = D" "aligned D" "pmem s (D + 4 * 1023) = D OR 3"
    and p: "p AND 0x3FF = p" and x: "x AND 0x3FF = x"
  shows "translate s ((0xFFC00000 OR push_bit 12 p) + 4 * x) =
           (if pmem s (D + 4 * p) AND 1 = 0 then None
            else Some (page_base (pmem s (D + 4 * p)) + 4 * x))"
proof -
  let ?va = "(0xFFC00000 OR push_bit 12 p) + 4 * x"
  have a1: "entry_at (cr3 s) (drop_bit 22 ?va) = D + 4 * 1023"
    using window_dir[of p x] entry_at_add[OF assms(3), of 1023] p x assms(2)
    by (simp add: entry_at_def)
  have pde: "pmem s (entry_at (cr3 s) (drop_bit 22 ?va)) = D OR 3"
    using a1 assms(4) by simp
  have a2: "entry_at (D OR 3) (drop_bit 12 ?va) = D + 4 * p"
    using window_tbl[of p x] entry_at_add[OF assms(3), of p] p x
    by (simp add: entry_at_def page_base_flags[OF assms(3)] page_base_aligned[OF assms(3)])
  have off: "?va AND 0xFFF = 4 * x"
    using window_off[of p x] p x by (simp add: four_mult)
  have res: "page_base e OR 4 * x = page_base e + 4 * x" for e
    using entry_at_add[OF aligned_page_base, of e x] x
    by (simp add: entry_at_def four_mult page_base_aligned[OF aligned_page_base])
  show ?thesis
    using assms(1)
    by (simp add: translate_def Let_def pde flags_present a2 off res)
qed

lemma clear_window_keeps_self:
  assumes D: "aligned D" and p: "p AND 0x3FF = p" and p1023: "p \<noteq> 1023"
  shows "paging_on s \<Longrightarrow> cr3 s = D \<Longrightarrow> pmem s (D + 4 * 1023) = D OR 3 \<Longrightarrow>
         (page_base (pmem s (D + 4 * p)) = D \<and> pmem s (D + 4 * p) AND 1 \<noteq> 0 \<longrightarrow> i \<le> unat p) \<Longrightarrow>
         pmem (final (clear_entries (0xFFC00000 OR push_bit 12 p) i s)) (D + 4 * 1023) = D OR 3 \<and>
         (\<forall>t. clear_entries (0xFFC00000 OR push_bit 12 p) i s = Returned () t \<longrightarrow>
            \<not> (page_base (pmem t (D + 4 * p)) = D \<and> pmem t (D + 4 * p) AND 1 \<noteq> 0))"
proof (induction "0xFFC00000 OR push_bit 12 p" i s rule: clear_entries.induct)
  case (1 i s)
  let ?W = "0xFFC00000 OR push_bit 12 p"
  have pn: "unat p < 1023"
  proof -
    have "unat p < 1024" using idx_unat[OF p] .
    moreover have "unat p \<noteq> 1023" using p1023 by (metis of_nat_unat_idx of_nat_numeral)
    ultimately show ?thesis by simp
  qed
  show ?case
  proof (cases "i < ENTRIES_PER_PAGE")
    case False
    then have r: "clear_entries ?W i s = Returned () s"
      by (simp add: clear_entries.simps[of ?W i s])
    from False have "\<not> i \<le> unat p" using pn by (simp add: ENTRIES_PER_PAGE_def)
    with r "1.prems" show ?thesis by auto
  next
    case True
    then have i: "i < 1024" by (simp add: ENTRIES_PER_PAGE_def)
    let ?e = "pmem s (D + 4 * p)"
    have tr: "translate s (?W + 4 * of_nat i) =
        (if ?e AND 1 = 0 then None else Some (page_base ?e + 4 * of_nat i))"
      using translate_window_full[OF "1.prems"(1,2) D "1.prems"(3) p of_nat_idx[OF i]] .
    show ?thesis
    proof (cases "?e AND 1 = 0")
      case absent: True
      then have "clear_entries ?W i s = Faulted (?W + 4 * of_nat i) s"
        using True tr by (simp add: clear_entries.simps[of ?W i s] assign_def)
      with "1.prems" show ?thesis by simp
    next
      case present: False
      let ?a = "page_base ?e + 4 * of_nat i"
      let ?s' = "s\<lparr>pmem := (pmem s)(?a := 0)\<rparr>"
      have asg: "assign s (?W + 4 * of_nat i) 0 = Some ?s'"
        using tr present by (simp add: assign_def)
      have slot: "?a \<noteq> D + 4 * 1023"
      proof
        assume "?a = D + 4 * 1023"
        then have eq: "page_base ?e = D" "(of_nat i :: word32) = 1023"
          using slot_eq_iff[where b="page_base ?e" and b'=D and x="of_nat i" and y=1023,
              OF aligned_page_base D of_nat_idx[OF i]] by simp_all
        then have "i \<le> unat p" using "1.prems"(4) present by simp
        then have "i < 1023" using pn by simp
        then have "(of_nat i :: word32) \<noteq> of_nat 1023"
          using of_nat_idx_inj[OF i, of 1023] by simp
        with eq(2) show False by simp
      qed
      have k1: "pmem ?s' (D + 4 * 1023) = D OR 3"
        using slot "1.prems"(3) by simp
      have k2: "page_base (pmem ?s' (D + 4 * p)) = D \<and> pmem ?s' (D + 4 * p) AND 1 \<noteq> 0
                  \<longrightarrow> Suc i \<le> unat p"
      proof (cases "?a = D + 4 * p")
        case True
        then show ?thesis by simp
      next
        case False
        show ?thesis
        proof
          assume h: "page_base (pmem ?s' (D + 4 * p)) = D \<and> pmem ?s' (D + 4 * p) AND 1 \<noteq> 0"
          with False have pb: "page_base ?e = D" by simp
          then have le: "i \<le> unat p" using "1.prems"(4) present by simp
          have "of_nat i \<noteq> p"
            using False pb by auto
          then have "i \<noteq> unat p" by (metis of_nat_unat_idx)
          with le show "Suc i \<le> unat p" by simp
        qed
      qed
      have IH: "pmem (final (clear_entries ?W (Suc i) ?s')) (D + 4 * 1023) = D OR 3 \<and>
         (\<forall>t. clear_entries ?W (Suc i) ?s' = Returned () t \<longrightarrow>
            \<not> (page_base (pmem t (D + 4 * p)) = D \<and> pmem t (D + 4 * p) AND 1 \<noteq> 0))"
        using "1.hyps"[OF True asg _ _ k1 k2] "1.prems"(1,2) by simp
      have "clear_entries ?W i s = clear_entries ?W (Suc i) ?s'"
        using True asg by (simp add: clear_entries.simps[of ?W i s])
      with IH show ?thesis by simp
    qed
  qed
qed


lemma directory_hit_keeps_present:
  "pmem s a AND 1 \<noteq> 0 \<Longrightarrow> pmem (final (directory_hit cpt pd pt s)) a = pmem s a"
  unfolding directory_hit_def Let_def
  by (auto simp: deref_def assign_def puts_def putui_def split: option.splits prod.splits)

lemma clear_entries_regs:
  "cr0 (final (clear_entries tbl i s)) = cr0 s \<and> cr3 (final (clear_entries tbl i s)) = cr3 s"
  using clear_entries_shape[of tbl i s] by auto

lemma directory_miss_keeps_self:
  assumes on: "paging_on s" and cr: "cr3 s = page_directory cpt"
    and D: "aligned (page_directory cpt)"
    and self: "pmem s (page_directory cpt + 4 * 1023) = page_directory cpt OR 3"
    and pd: "pd AND 0x3FF = pd" and pt: "pt AND 0x3FF = pt"
    and idm: "translate s (page_directory cpt + 4 * pd) = Some (page_directory cpt + 4 * pd)"
    and absent: "pmem s (page_directory cpt + 4 * pd) AND 1 = 0"
  shows "pmem (final (directory_miss cpt pd pt s)) (page_directory cpt + 4 * 1023) =
           page_directory cpt OR 3"
proof -
  define Dr where "Dr = page_directory cpt"
  obtain k kp where k: "get_frames (kernel_mem_pool s) = (k, kp)" by (cases "get_frames (kernel_mem_pool s)")
  define N where "N = k * PAGE_SIZE"
  let ?W = "0xFFC00000 OR push_bit 12 pd"
  have D': "aligned Dr" using D by (simp add: Dr_def)
  have self': "pmem s (Dr + 4 * 1023) = Dr OR 3" using self by (simp add: Dr_def)
  have pd1023: "pd \<noteq> 1023"
    using absent self flags_present[of "page_directory cpt"] by auto
  have dslot: "Dr + 4 * pd \<noteq> Dr + 4 * 1023"
    using slot_eq_iff[OF D' D' pd, of 1023] pd1023 by simp
  let ?s1 = "puts ''Allocating new page table\<newline>'' s"
  let ?s2 = "?s1\<lparr>kernel_mem_pool := kp\<rparr>"
  let ?s3 = "?s2\<lparr>pmem := (pmem ?s2)(Dr + 4 * pd := N OR 3)\<rparr>"
  let ?s4 = "puts ''\<newline>'' (putui N (puts ''New page table allocated at address: '' ?s3))"
  have f1: "get_frames (kernel_mem_pool ?s1) = (k, kp)"
    using k by (simp add: puts_def)
  have f2: "assign ?s2 (Dr + 4 * pd) (N OR 3) = Some ?s3"
    using idm by (simp add: assign_def Dr_def puts_def)
  show ?thesis
  proof (cases "k = 0")
    case True
    then have "directory_miss cpt pd pt s =
        Returned () (puts ''Failed to allocate new page table\<newline>'' ?s2)"
      unfolding directory_miss_def Let_def using f1 by simp
    then show ?thesis using self by simp
  next
    case False
    have on4: "paging_on ?s4" using on by (simp add: paging_on_def puts_def putui_def)
    have cr4: "cr3 ?s4 = Dr" using cr by (simp add: Dr_def puts_def putui_def)
    have self4: "pmem ?s4 (Dr + 4 * 1023) = Dr OR 3"
      using self' dslot by simp
    have pre4: "page_base (pmem ?s4 (Dr + 4 * pd)) = Dr \<and> pmem ?s4 (Dr + 4 * pd) AND 1 \<noteq> 0
                 \<longrightarrow> 0 \<le> unat pd" by simp
    note L = clear_window_keeps_self[OF D' pd pd1023 on4 cr4 self4 pre4]
    have step: "directory_miss cpt pd pt s =
      (case clear_entries ?W 0 ?s4 of
         Faulted va sf \<Rightarrow> Faulted va sf
       | Returned _ s5 \<Rightarrow>
          (let (entry_frame, ppool) = get_frames (process_mem_pool s5);
                  s6 = s5\<lparr>process_mem_pool := ppool\<rparr>;
                  frame_address = PAGE_SIZE * entry_frame;
                  s7 = puts ''Page table entry before update: '' s6
              in
              case deref s7 (?W + 4 * pt) of
                None \<Rightarrow> Faulted (?W + 4 * pt) s7
              | Some before \<Rightarrow>
                (let s8 = puts ''\<newline>'' (putui before s7) in
                 case assign s8 (?W + 4 * pt) (frame_address OR 0x3) of
                   None \<Rightarrow> Faulted (?W + 4 * pt) s8
                 | Some s9 \<Rightarrow>
                   (let s10 = puts ''Page table entry after update: '' s9 in
                    case deref s10 (?W + 4 * pt) of
                      None \<Rightarrow> Faulted (?W + 4 * pt) s10
                    | Some after \<Rightarrow>
                      Returned ()
                        (puts ''Page fault handled\<newline> ''
                           (puts ''\<newline>'' (putui after s10)))))))"
      unfolding directory_miss_def Let_def Dr_def[symmetric]
      using False f1 f2
      by (simp only: N_def[symmetric] prod.case if_False option.case)
    show ?thesis
    proof (cases "clear_entries ?W 0 ?s4")
      case (Faulted va sf)
      with L step show ?thesis by (simp add: Dr_def)
    next
      case (Returned u s5)
      have s5: "pmem s5 (Dr + 4 * 1023) = Dr OR 3"
        "\<not> (page_base (pmem s5 (Dr + 4 * pd)) = Dr \<and> pmem s5 (Dr + 4 * pd) AND 1 \<noteq> 0)"
        using L Returned by auto
      have regs5: "paging_on s5" "cr3 s5 = Dr"
        using clear_entries_regs[of ?W 0 ?s4] Returned on4 cr4 by (simp_all add: paging_on_def)
      have tr: "translate t (?W + 4 * pt) =
           (if pmem s5 (Dr + 4 * pd) AND 1 = 0 then None
            else Some (page_base (pmem s5 (Dr + 4 * pd)) + 4 * pt))"
        if "paging_on t" "cr3 t = Dr" "pmem t = pmem s5" for t
        using translate_window_full[OF that(1,2) D' _ pd pt] s5(1) that(3) by simp
      have tgt: "page_base (pmem s5 (Dr + 4 * pd)) + 4 * pt \<noteq> Dr + 4 * 1023"
        if "pmem s5 (Dr + 4 * pd) AND 1 \<noteq> 0"
        using slot_eq_iff[where b="page_base (pmem s5 (Dr + 4 * pd))" and b'=Dr and x=pt and y=1023,
              OF aligned_page_base D' pt] s5(2) that by simp
      show ?thesis
        unfolding step Returned Dr_def[symmetric]
        using regs5 s5(1) tr tgt
        by (auto simp: Let_def deref_def assign_def puts_def putui_def paging_on_def
              split: prod.splits option.splits if_splits)
    qed
  qed
qed

lemma handle_fault_keeps_self:
  assumes "fault_ready s cpt"
  shows "pmem (final (handle_fault r s)) (page_directory cpt + 4 * 1023) = page_directory cpt OR 3"
proof -
  define pd where "pd = pd_index_of (cr2 s)"
  define pt where "pt = pt_index_of (cr2 s)"
  have pdm: "pd AND 0x3FF = pd" "pt AND 0x3FF = pt" by (simp_all add: pd_def pt_def)
  from assms have c: "current_page_table s = Some cpt" and on: "paging_on s"
    and cr: "cr3 s = page_directory cpt" and D: "aligned (page_directory cpt)"
    and self: "pmem s (page_directory cpt + 4 * 1023) = page_directory cpt OR 3"
    and idm: "translate s (page_directory cpt + 4 * pd) = Some (page_directory cpt + 4 * pd)"
    by (simp_all add: fault_ready_def pd_def)
  define s1 where "s1 = print_fault (cr2 s) pd pt s"
  define e where "e = pmem s (page_directory cpt + 4 * pd)"
  define s2 where "s2 = puts ''\<newline>'' (putui e (puts ''Page directory entry for fault: '' s1))"
  have rd: "deref s1 (page_directory cpt + 4 * pd) = Some e"
    using idm by (simp add: deref_def s1_def print_fault_def puts_def putui_def e_def)
  have hf: "handle_fault r s =
      (if e AND 1 = 0 then directory_miss cpt pd pt s2 else directory_hit cpt pd pt s2)"
    using c rd by (simp add: handle_fault_def Let_def s1_def s2_def pd_def pt_def)
  have s2: "paging_on s2" "cr3 s2 = page_directory cpt" "pmem s2 = pmem s"
    "translate s2 = translate s"
    using on cr by (simp_all add: s2_def s1_def print_fault_def puts_def putui_def paging_on_def)
  show ?thesis
  proof (cases "e AND 1 = 0")
    case True
    then show ?thesis
      using directory_miss_keeps_self[OF s2(1,2) D _ pdm, of ] self idm s2(3,4) hf
      by (simp add: e_def)
  next
    case False
    have "pmem s2 (page_directory cpt + 4 * 1023) AND 1 \<noteq> 0"
      using self s2(3) flags_present[of "page_directory cpt"] by simp
    from directory_hit_keeps_present[OF this] False hf self s2(3) show ?thesis by simp
  qed
qed

section \<open>The constructor with paging off\<close>

lemma assign_phys: "\<not> paging_on s \<Longrightarrow> assign s a v = Some (s\<lparr>pmem := (pmem s)(a := v)\<rparr>)"
  by (simp add: assign_def translate_def)

lemma word_slot_inj: "i < 1024 \<Longrightarrow> j < 1024 \<Longrightarrow> (tbl::word32) + 4 * of_nat i = tbl + 4 * of_nat j \<longleftrightarrow> i = j"
proof -
  assume b: "i < 1024" "j < 1024"
  have z: "aligned 0" by (simp add: aligned_def)
  have "(0::word32) + 4 * of_nat i = 0 + 4 * of_nat j \<longleftrightarrow> (of_nat i :: word32) = of_nat j"
    using slot_eq_iff[OF z z of_nat_idx[OF b(1)] of_nat_idx[OF b(2)]] by simp
  then show ?thesis using of_nat_idx_inj[OF b] by simp
qed

lemma fill_step:
  assumes i: "i < 1024"
    and z: "\<forall>j. Suc i \<le> j \<and> j < 1024 \<longrightarrow> m (tbl + 4 * of_nat j) = g j"
    and o: "\<forall>a. (\<forall>j. Suc i \<le> j \<and> j < 1024 \<longrightarrow> a \<noteq> tbl + 4 * of_nat j) \<longrightarrow>
                m a = (m0(tbl + 4 * of_nat i := g i)) a"
  shows "(\<forall>j. i \<le> j \<and> j < 1024 \<longrightarrow> m ((tbl::word32) + 4 * of_nat j) = (g j :: word32)) \<and>
         (\<forall>a. (\<forall>j. i \<le> j \<and> j < 1024 \<longrightarrow> a \<noteq> tbl + 4 * of_nat j) \<longrightarrow> m a = m0 a)"
proof -
  have dist: "tbl + 4 * of_nat i \<noteq> tbl + 4 * of_nat j" if "Suc i \<le> j" "j < 1024" for j
    using word_slot_inj[OF i that(2), of tbl] that by simp
  have mi: "m (tbl + 4 * of_nat i) = g i"
    using o dist by simp
  have z': "m (tbl + 4 * of_nat j) = g j" if "i \<le> j" "j < 1024" for j
    using that mi z by (cases "j = i") auto
  have o': "m a = m0 a" if "\<forall>j. i \<le> j \<and> j < 1024 \<longrightarrow> a \<noteq> tbl + 4 * of_nat j" for a
  proof -
    have "a \<noteq> tbl + 4 * of_nat i" using that i by auto
    moreover have "\<forall>j. Suc i \<le> j \<and> j < 1024 \<longrightarrow> a \<noteq> tbl + 4 * of_nat j" using that by auto
    ultimately show ?thesis using o by simp
  qed
  show ?thesis using z' o' by blast
qed

lemma clear_entries_phys:
  "\<not> paging_on s \<Longrightarrow>
   \<exists>m. clear_entries tbl i s = Returned () (s\<lparr>pmem := m\<rparr>) \<and>
       (\<forall>j. i \<le> j \<and> j < 1024 \<longrightarrow> m (tbl + 4 * of_nat j) = 0) \<and>
       (\<forall>a. (\<forall>j. i \<le> j \<and> j < 1024 \<longrightarrow> a \<noteq> tbl + 4 * of_nat j) \<longrightarrow> m a = pmem s a)"
proof (induction tbl i s rule: clear_entries.induct)
  case (1 tbl i s)
  show ?case
  proof (cases "i < ENTRIES_PER_PAGE")
    case False
    then have "clear_entries tbl i s = Returned () (s\<lparr>pmem := pmem s\<rparr>)"
      by (simp add: clear_entries.simps[of tbl i s])
    moreover from False have "\<not> i < 1024" by (simp add: ENTRIES_PER_PAGE_def)
    ultimately show ?thesis by (intro exI[of _ "pmem s"]) auto
  next
    case True
    then have i: "i < 1024" by (simp add: ENTRIES_PER_PAGE_def)
    let ?s' = "s\<lparr>pmem := (pmem s)(tbl + 4 * of_nat i := 0)\<rparr>"
    have asg: "assign s (tbl + 4 * of_nat i) 0 = Some ?s'"
      using assign_phys[OF "1.prems"] .
    have off: "\<not> paging_on ?s'" using "1.prems" by simp
    obtain m where m: "clear_entries tbl (Suc i) ?s' = Returned () (?s'\<lparr>pmem := m\<rparr>)"
      and mz: "\<forall>j. Suc i \<le> j \<and> j < 1024 \<longrightarrow> m (tbl + 4 * of_nat j) = 0"
      and mo: "\<forall>a. (\<forall>j. Suc i \<le> j \<and> j < 1024 \<longrightarrow> a \<noteq> tbl + 4 * of_nat j) \<longrightarrow> m a = pmem ?s' a"
      using "1.IH"[OF True asg off] by auto
    have run: "clear_entries tbl i s = Returned () (s\<lparr>pmem := m\<rparr>)"
      using True asg m by (simp add: clear_entries.simps[of tbl i s])
    from fill_step[OF i, of m tbl "\<lambda>_. 0" "pmem s"] mz mo run show ?thesis by auto
  qed
qed

lemma mark_not_present_phys:
  "\<not> paging_on s \<Longrightarrow>
   \<exists>m. mark_not_present dir i s = Returned () (s\<lparr>pmem := m\<rparr>) \<and>
       (\<forall>j. i \<le> j \<and> j < 1024 \<longrightarrow> m (dir + 4 * of_nat j) = 2) \<and>
       (\<forall>a. (\<forall>j. i \<le> j \<and> j < 1024 \<longrightarrow> a \<noteq> dir + 4 * of_nat j) \<longrightarrow> m a = pmem s a)"
proof (induction dir i s rule: mark_not_present.induct)
  case (1 dir i s)
  show ?case
  proof (cases "i < 1024")
    case False
    then have "mark_not_present dir i s = Returned () (s\<lparr>pmem := pmem s\<rparr>)"
      by (simp add: mark_not_present.simps[of dir i s])
    with False show ?thesis by (intro exI[of _ "pmem s"]) auto
  next
    case i: True
    let ?s' = "s\<lparr>pmem := (pmem s)(dir + 4 * of_nat i := 2)\<rparr>"
    have asg: "assign s (dir + 4 * of_nat i) 2 = Some ?s'"
      using assign_phys[OF "1.prems"] .
    have off: "\<not> paging_on ?s'" using "1.prems" by simp
    obtain m where m: "mark_not_present dir (Suc i) ?s' = Returned () (?s'\<lparr>pmem := m\<rparr>)"
      and mz: "\<forall>j. Suc i \<le> j \<and> j < 1024 \<longrightarrow> m (dir + 4 * of_nat j) = 2"
      and mo: "\<forall>a. (\<forall>j. Suc i \<le> j \<and> j < 1024 \<longrightarrow> a \<noteq> dir + 4 * of_nat j) \<longrightarrow> m a = pmem ?s' a"
      using "1.IH"[OF i asg off] by auto
    have run: "mark_not_present dir i s = Returned () (s\<lparr>pmem := m\<rparr>)"
      using i asg m by (simp add: mark_not_present.simps[of dir i s])
    from fill_step[OF i, of m dir "\<lambda>_. 2" "pmem s"] mz mo run show ?thesis by auto
  qed
qed

lemma map_first_4MB_phys:
  "\<not> paging_on s \<Longrightarrow> address = of_nat i * PAGE_SIZE \<Longrightarrow>
   \<exists>m. map_first_4MB tbl i address s = Returned () (s\<lparr>pmem := m\<rparr>) \<and>
       (\<forall>j. i \<le> j \<and> j < 1024 \<longrightarrow> m (tbl + 4 * of_nat j) = of_nat j * PAGE_SIZE OR 3) \<and>
       (\<forall>a. (\<forall>j. i \<le> j \<and> j < 1024 \<longrightarrow> a \<noteq> tbl + 4 * of_nat j) \<longrightarrow> m a = pmem s a)"
proof (induction tbl i address s rule: map_first_4MB.induct)
  case (1 tbl i address s)
  show ?case
  proof (cases "i < 1024")
    case False
    then have "map_first_4MB tbl i address s = Returned () (s\<lparr>pmem := pmem s\<rparr>)"
      by (simp add: map_first_4MB.simps[of tbl i address s])
    with False show ?thesis by (intro exI[of _ "pmem s"]) auto
  next
    case i: True
    let ?s' = "s\<lparr>pmem := (pmem s)(tbl + 4 * of_nat i := address OR 3)\<rparr>"
    have asg: "assign s (tbl + 4 * of_nat i) (address OR 3) = Some ?s'"
      using assign_phys[OF "1.prems"(1)] .
    have off: "\<not> paging_on ?s'" using "1.prems" by simp
    have nxt: "address + PAGE_SIZE = of_nat (Suc i) * PAGE_SIZE"
      using "1.prems"(2) by (simp add: algebra_simps)
    obtain m where m: "map_first_4MB tbl (Suc i) (address + PAGE_SIZE) ?s' = Returned () (?s'\<lparr>pmem := m\<rparr>)"
      and mz: "\<forall>j. Suc i \<le> j \<and> j < 1024 \<longrightarrow> m (tbl + 4 * of_nat j) = of_nat j * PAGE_SIZE OR 3"
      and mo: "\<forall>a. (\<forall>j. Suc i \<le> j \<and> j < 1024 \<longrightarrow> a \<noteq> tbl + 4 * of_nat j) \<longrightarrow> m a = pmem ?s' a"
      using "1.IH"[OF i asg off nxt] by auto
    have run: "map_first_4MB tbl i address s = Returned () (s\<lparr>pmem := m\<rparr>)"
      using i asg m by (simp add: map_first_4MB.simps[of tbl i address s])
    from fill_step[OF i, of m tbl "\<lambda>j. of_nat j * PAGE_SIZE OR 3" "pmem s"] mz mo run "1.prems"(2)
    show ?thesis by auto
  qed
qed


lemma build_tables_result:
  assumes off: "\<not> paging_on s" and D: "aligned D"
  shows "\<exists>m. build_tables D t s =
           Returned \<lparr>page_directory = D\<rparr>
             (puts ''Page directory with 4MB direct-mapped allocated\<newline>'' (s\<lparr>pmem := m\<rparr>)) \<and>
           m (D + 4 * 1023) = D OR 3 \<and> m D = t * PAGE_SIZE OR 3 \<and>
           (\<forall>j. 1 \<le> j \<and> j < 1023 \<longrightarrow> m (D + 4 * of_nat j) = 2) \<and>
           (t * PAGE_SIZE \<noteq> D \<longrightarrow>
              (\<forall>i. i < 1024 \<longrightarrow> m (t * PAGE_SIZE + 4 * of_nat i) = of_nat i * PAGE_SIZE OR 3)) \<and>
           (\<forall>a. (\<forall>j. j < 1024 \<longrightarrow> a \<noteq> D + 4 * of_nat j) \<and>
                (\<forall>j. j < 1024 \<longrightarrow> a \<noteq> t * PAGE_SIZE + 4 * of_nat j) \<longrightarrow> m a = pmem s a)"
proof -
  define T where "T = t * PAGE_SIZE"
  have T: "aligned T" by (simp add: T_def aligned_frame)
  obtain m1 where r1: "map_first_4MB T 0 0 s = Returned () (s\<lparr>pmem := m1\<rparr>)"
    and z1: "\<forall>j. j < 1024 \<longrightarrow> m1 (T + 4 * of_nat j) = of_nat j * PAGE_SIZE OR 3"
    and o1: "\<forall>a. (\<forall>j. j < 1024 \<longrightarrow> a \<noteq> T + 4 * of_nat j) \<longrightarrow> m1 a = pmem s a"
    using map_first_4MB_phys[OF off, of 0 0 T] by auto
  let ?s1 = "s\<lparr>pmem := m1\<rparr>"
  let ?m2 = "m1(D + 4 * 0 := T OR 3)"
  let ?s2 = "?s1\<lparr>pmem := (pmem ?s1)(D + 4 * 0 := T OR 3)\<rparr>"
  have off1: "\<not> paging_on ?s1" using off by simp
  have r2: "assign ?s1 (D + 4 * 0) (T OR 3) = Some ?s2"
    using assign_phys[OF off1] .
  have off2: "\<not> paging_on ?s2" using off by simp
  obtain m3 where r3: "mark_not_present D 1 ?s2 = Returned () (?s2\<lparr>pmem := m3\<rparr>)"
    and z3: "\<forall>j. 1 \<le> j \<and> j < 1024 \<longrightarrow> m3 (D + 4 * of_nat j) = 2"
    and o3: "\<forall>a. (\<forall>j. 1 \<le> j \<and> j < 1024 \<longrightarrow> a \<noteq> D + 4 * of_nat j) \<longrightarrow> m3 a = pmem ?s2 a"
    using mark_not_present_phys[OF off2, of D 1] by auto
  let ?s3 = "?s2\<lparr>pmem := m3\<rparr>"
  let ?last = "D + 4 * of_nat (ENTRIES_PER_PAGE - 1)"
  let ?s4 = "?s3\<lparr>pmem := (pmem ?s3)(?last := D OR 3)\<rparr>"
  define m4 where "m4 = m3(D + 4 * 1023 := D OR 3)"
  have off3: "\<not> paging_on ?s3" using off by simp
  have r4: "assign ?s3 ?last (D OR 3) = Some ?s4"
    using assign_phys[OF off3] .
  have run: "build_tables D t s =
      Returned \<lparr>page_directory = D\<rparr>
        (puts ''Page directory with 4MB direct-mapped allocated\<newline>'' ?s4)"
    unfolding build_tables_def Let_def T_def[symmetric]
    using r1 r2 r3 r4 by (simp only: outcome.case option.case)
  have s4: "?s4 = s\<lparr>pmem := m4\<rparr>"
    by (simp add: m4_def ENTRIES_PER_PAGE_def)
  have d0: "D + 4 * of_nat j \<noteq> D" if "1 \<le> j" "j < 1024" for j
    using word_slot_inj[OF that(2), of 0 D] that(1) by simp
  have dj: "D + 4 * of_nat j \<noteq> D + 4 * 1023" if "j < 1023" for j
    using word_slot_inj[of j 1023 D] that by simp
  have A: "m4 (D + 4 * 1023) = D OR 3" by (simp add: m4_def)
  have far: "T + 4 * of_nat i \<noteq> D + 4 * of_nat j" if "T \<noteq> D" "i < 1024" "j < 1024" for i j
    using slot_eq_iff[OF T D of_nat_idx[OF that(2)] of_nat_idx[OF that(3)]] that(1) by simp
  have m2D: "pmem ?s2 D = T OR 3" by simp
  have m3D: "m3 D = T OR 3"
  proof -
    have "\<forall>j. 1 \<le> j \<and> j < 1024 \<longrightarrow> D \<noteq> D + 4 * of_nat j" using d0 by metis
    with o3 have "m3 D = pmem ?s2 D" by blast
    with m2D show ?thesis by simp
  qed
  have d1023: "D \<noteq> D + 4 * 1023"
    using word_slot_inj[of 0 1023 D] by simp
  have B: "m4 D = T OR 3"
    using m3D d1023 by (simp add: m4_def)
  have C: "m4 (D + 4 * of_nat j) = 2" if "1 \<le> j" "j < 1023" for j
    using z3 that dj[OF that(2)] by (simp add: m4_def)
  have E: "m4 (T + 4 * of_nat i) = of_nat i * PAGE_SIZE OR 3" if "T \<noteq> D" "i < 1024" for i
  proof -
    have 1: "T + 4 * of_nat i \<noteq> D + 4 * 1023"
      using far[OF that, of 1023] by simp
    have 2: "\<forall>j. 1 \<le> j \<and> j < 1024 \<longrightarrow> T + 4 * of_nat i \<noteq> D + 4 * of_nat j"
      using far[OF that] by blast
    have 3: "T + 4 * of_nat i \<noteq> D + 4 * 0"
      using far[OF that, of 0] by simp
    have "m4 (T + 4 * of_nat i) = m3 (T + 4 * of_nat i)" using 1 by (simp add: m4_def)
    also have "\<dots> = pmem ?s2 (T + 4 * of_nat i)" using o3 2 by blast
    also have "\<dots> = m1 (T + 4 * of_nat i)" using 3 by simp
    also have "\<dots> = of_nat i * PAGE_SIZE OR 3" using z1 that(2) by simp
    finally show ?thesis .
  qed
  have F: "m4 a = pmem s a"
    if "\<forall>j. j < 1024 \<longrightarrow> a \<noteq> D + 4 * of_nat j" "\<forall>j. j < 1024 \<longrightarrow> a \<noteq> T + 4 * of_nat j" for a
  proof -
    have 1: "a \<noteq> D + 4 * 1023" using that(1)[rule_format, of 1023] by simp
    have 2: "\<forall>j. 1 \<le> j \<and> j < 1024 \<longrightarrow> a \<noteq> D + 4 * of_nat j" using that(1) by blast
    have 3: "a \<noteq> D + 4 * 0" using that(1)[rule_format, of 0] by simp
    have "m4 a = m3 a" using 1 by (simp add: m4_def)
    also have "\<dots> = pmem ?s2 a" using o3 2 by blast
    also have "\<dots> = m1 a" using 3 by simp
    also have "\<dots> = pmem s a" using o1 that(2) by blast
    finally show ?thesis .
  qed
  show ?thesis
    unfolding T_def[symmetric]
    by (intro exI[of _ m4] conjI allI impI) (use run s4 A B C E F in auto)
qed

lemma PageTable_result:
  assumes off: "\<not> paging_on s"
    and d: "get_frames (kernel_mem_pool s) = (d, kp1)"
    and t: "get_frames kp1 = (t, kp2)" "t \<noteq> 0"
  shows "\<exists>s'. PageTable s = Returned \<lparr>page_directory = d * PAGE_SIZE\<rparr> s' \<and>
           cr0 s' = cr0 s \<and> cr2 s' = cr2 s \<and> cr3 s' = cr3 s \<and>
           current_page_table s' = current_page_table s \<and> kernel_mem_pool s' = kp2 \<and>
           process_mem_pool s' = process_mem_pool s \<and>
           console s' = console s @ [Puts ''Page directory with 4MB direct-mapped allocated\<newline>''] \<and>
           pmem s' (d * PAGE_SIZE + 4 * 1023) = d * PAGE_SIZE OR 3 \<and>
           pmem s' (d * PAGE_SIZE) = t * PAGE_SIZE OR 3 \<and>
           (\<forall>j. 1 \<le> j \<and> j < 1023 \<longrightarrow> pmem s' (d * PAGE_SIZE + 4 * of_nat j) = 2) \<and>
           (t * PAGE_SIZE \<noteq> d * PAGE_SIZE \<longrightarrow>
              (\<forall>i. i < 1024 \<longrightarrow> pmem s' (t * PAGE_SIZE + 4 * of_nat i) = of_nat i * PAGE_SIZE OR 3)) \<and>
           (\<forall>a. (\<forall>j. j < 1024 \<longrightarrow> a \<noteq> d * PAGE_SIZE + 4 * of_nat j) \<and>
                (\<forall>j. j < 1024 \<longrightarrow> a \<noteq> t * PAGE_SIZE + 4 * of_nat j) \<longrightarrow> pmem s' a = pmem s a)"
proof -
  define D where "D = d * PAGE_SIZE"
  have D: "aligned D" by (simp add: D_def aligned_frame)
  let ?s1 = "s\<lparr>kernel_mem_pool := kp1\<rparr>"
  have off1: "\<not> paging_on ?s1" using off by simp
  obtain m2 where r2: "clear_entries D 0 ?s1 = Returned () (?s1\<lparr>pmem := m2\<rparr>)"
    and o2: "\<forall>a. (\<forall>j. j < 1024 \<longrightarrow> a \<noteq> D + 4 * of_nat j) \<longrightarrow> m2 a = pmem ?s1 a"
    using clear_entries_phys[OF off1, of D 0] by auto
  let ?s2 = "?s1\<lparr>pmem := m2\<rparr>"
  let ?s3 = "?s2\<lparr>kernel_mem_pool := kp2\<rparr>"
  have g2: "get_frames (kernel_mem_pool ?s2) = (t, kp2)" using t(1) by simp
  have off3: "\<not> paging_on ?s3" using off by simp
  obtain m where b: "build_tables D t ?s3 =
           Returned \<lparr>page_directory = D\<rparr>
             (puts ''Page directory with 4MB direct-mapped allocated\<newline>'' (?s3\<lparr>pmem := m\<rparr>))"
    and A: "m (D + 4 * 1023) = D OR 3" and B: "m D = t * PAGE_SIZE OR 3"
    and C: "\<forall>j. 1 \<le> j \<and> j < 1023 \<longrightarrow> m (D + 4 * of_nat j) = 2"
    and E: "t * PAGE_SIZE \<noteq> D \<longrightarrow>
              (\<forall>i. i < 1024 \<longrightarrow> m (t * PAGE_SIZE + 4 * of_nat i) = of_nat i * PAGE_SIZE OR 3)"
    and F: "\<forall>a. (\<forall>j. j < 1024 \<longrightarrow> a \<noteq> D + 4 * of_nat j) \<and>
                (\<forall>j. j < 1024 \<longrightarrow> a \<noteq> t * PAGE_SIZE + 4 * of_nat j) \<longrightarrow> m a = pmem ?s3 a"
    using build_tables_result[OF off3 D, of t] by blast
  have run: "PageTable s = Returned \<lparr>page_directory = D\<rparr>
             (puts ''Page directory with 4MB direct-mapped allocated\<newline>'' (?s3\<lparr>pmem := m\<rparr>))"
    unfolding PageTable_def Let_def D_def[symmetric]
    using d r2 g2 t(2) b by (simp only: D_def[symmetric] prod.case outcome.case if_False)
  have F': "m a = pmem s a"
    if "\<forall>j. j < 1024 \<longrightarrow> a \<noteq> D + 4 * of_nat j" "\<forall>j. j < 1024 \<longrightarrow> a \<noteq> t * PAGE_SIZE + 4 * of_nat j" for a
    using F o2 that by simp
  show ?thesis
    unfolding D_def[symmetric] run
    by (intro exI[of _ "puts ''Page directory with 4MB direct-mapped allocated\<newline>'' (?s3\<lparr>pmem := m\<rparr>)"]
          conjI allI impI) (use A B C E F' in \<open>auto simp: puts_def\<close>)
qed

lemma PageTable_no_table_frame:
  assumes off: "\<not> paging_on s"
    and d: "get_frames (kernel_mem_pool s) = (d, kp1)"
    and t: "get_frames kp1 = (0, kp2)"
  shows "\<exists>s'. PageTable s = Returned \<lparr>page_directory = d * PAGE_SIZE\<rparr> s' \<and>
           console s' = console s @ [Puts ''Failed to allocate first page table\<newline>''] \<and>
           (\<forall>j. j < 1024 \<longrightarrow> pmem s' (d * PAGE_SIZE + 4 * of_nat j) = 0) \<and>
           (\<forall>a. (\<forall>j. j < 1024 \<longrightarrow> a \<noteq> d * PAGE_SIZE + 4 * of_nat j) \<longrightarrow> pmem s' a = pmem s a)"
proof -
  define D where "D = d * PAGE_SIZE"
  let ?s1 = "s\<lparr>kernel_mem_pool := kp1\<rparr>"
  have off1: "\<not> paging_on ?s1" using off by simp
  obtain m2 where r2: "clear_entries D 0 ?s1 = Returned () (?s1\<lparr>pmem := m2\<rparr>)"
    and z2: "\<forall>j. j < 1024 \<longrightarrow> m2 (D + 4 * of_nat j) = 0"
    and o2: "\<forall>a. (\<forall>j. j < 1024 \<longrightarrow> a \<noteq> D + 4 * of_nat j) \<longrightarrow> m2 a = pmem ?s1 a"
    using clear_entries_phys[OF off1, of D 0] by auto
  let ?s2 = "?s1\<lparr>pmem := m2\<rparr>"
  let ?s3 = "?s2\<lparr>kernel_mem_pool := kp2\<rparr>"
  have g2: "get_frames (kernel_mem_pool ?s2) = (0, kp2)" using t(1) by simp
  have run: "PageTable s = Returned \<lparr>page_directory = D\<rparr>
             (puts ''Failed to allocate first page table\<newline>'' ?s3)"
    unfolding PageTable_def Let_def D_def[symmetric]
    using d r2 g2 by (simp only: D_def[symmetric] prod.case outcome.case simp_thms if_True)
  show ?thesis
    unfolding D_def[symmetric] run
    by (intro exI[of _ "puts ''Failed to allocate first page table\<newline>'' ?s3"]
          conjI allI impI) (use z2 o2 in \<open>auto simp: puts_def\<close>)
qed

section \<open>The identity-mapped region\<close>

lemma low_bits: "(va::word32) < 0x400000 \<Longrightarrow> 22 \<le> n \<Longrightarrow> \<not> bit va n"
proof -
  assume "va < 0x400000" "22 \<le> n"
  then have "va < 2 ^ 22" by simp
  then have "va AND mask 22 = va" by (rule less_mask_eq)
  then have "bit va n = bit (va AND mask 22) n" by simp
  with \<open>22 \<le> n\<close> show ?thesis by (simp add: bit_simps)
qed

lemma low_dir: "(va::word32) < 0x400000 \<Longrightarrow> drop_bit 22 va = 0"
  by (rule bit_eqI) (use low_bits[of va] in \<open>auto simp: bit_simps\<close>)

lemma low_tbl: "(va::word32) < 0x400000 \<Longrightarrow> drop_bit 12 va AND 0x3FF = drop_bit 12 va"
proof -
  assume va: "va < 0x400000"
  have "bit (drop_bit 12 va AND mask 10) n = bit (drop_bit 12 va) n" for n
  proof (cases "n < 10")
    case True
    then show ?thesis by (simp add: bit_simps)
  next
    case False
    then have "\<not> bit va (12 + n)" using low_bits[OF va, of "12 + n"] by simp
    then show ?thesis by (simp add: bit_simps)
  qed
  then show ?thesis unfolding m10 by (simp add: bit_eq_iff)
qed

lemma rebuild: "push_bit 12 (drop_bit 12 va) OR (va AND 0xFFF) = (va::word32)"
  unfolding m12 by (rule bit_eqI) (auto simp: bit_simps)

lemma flags_both: "(b OR 3) AND 3 = (3::word32)"
  unfolding m2 by (rule bit_eqI) (auto simp: bit_simps)

lemma identity_translate:
  assumes on: "paging_on s" and cr: "cr3 s = D" and D: "aligned D" and T: "aligned T"
    and d0: "pmem s D = T OR 3"
    and tb: "\<forall>i. i < 1024 \<longrightarrow> pmem s (T + 4 * of_nat i) = of_nat i * PAGE_SIZE OR 3"
    and va: "va < 0x400000"
  shows "translate s va = Some va \<and>
         pmem s (entry_at (cr3 s) (drop_bit 22 va)) AND 3 = 3 \<and>
         pmem s (entry_at (pmem s (entry_at (cr3 s) (drop_bit 22 va))) (drop_bit 12 va)) AND 3 = 3"
proof -
  define x where "x = drop_bit 12 va"
  have xm: "x AND 0x3FF = x" using low_tbl[OF va] by (simp add: x_def)
  have a1: "entry_at (cr3 s) (drop_bit 22 va) = D"
    using low_dir[OF va] cr by (simp add: entry_at_def page_base_aligned[OF D])
  have a2: "entry_at (T OR 3) x = T + 4 * x"
    using entry_at_add[OF T, of x] xm by (simp add: entry_at_def page_base_flags[OF T] page_base_aligned[OF T])
  have xn: "of_nat (unat x) = x" "unat x < 1024"
    using idx_unat[OF xm] by simp_all
  have pte: "pmem s (T + 4 * x) = x * PAGE_SIZE OR 3"
    using tb xn by metis
  have pb: "page_base (x * PAGE_SIZE OR 3) = push_bit 12 x"
    using page_base_flags[OF aligned_frame, of x] by (simp add: page_mult)
  have tr: "translate s va = Some va"
    using on by (simp add: translate_def Let_def a1 d0 flags_present x_def[symmetric] a2 pte pb)
       (simp add: x_def rebuild)
  show ?thesis
    using tr by (simp add: a1 d0 flags_both x_def[symmetric] a2 pte)
qed

lemma paging_on_enable: "paging_on (enable_paging s)"
proof -
  have "bit (cr0 s OR 0x80000000 AND 0x80000000) 31"
    by (simp add: bit_simps)
  then have "cr0 s OR 0x80000000 AND 0x80000000 \<noteq> 0" by auto
  then show ?thesis by (simp add: enable_paging_def paging_on_def puts_def)
qed

section \<open>The directory-miss path as a whole\<close>

lemma handle_fault_miss_result:
  assumes rdy: "fault_ready s cpt"
    and absent: "pmem s (page_directory cpt + 4 * pd_index_of (cr2 s)) AND 1 = 0"
    and k: "get_frames (kernel_mem_pool s) = (k, kp)" "k \<noteq> 0"
      "k * PAGE_SIZE \<noteq> page_directory cpt"
    and e: "get_frames (process_mem_pool s) = (e, pp)"
  shows "\<exists>s'. handle_fault r s = Returned () s' \<and>
           cr0 s' = cr0 s \<and> cr2 s' = cr2 s \<and> cr3 s' = cr3 s \<and>
           current_page_table s' = current_page_table s \<and>
           kernel_mem_pool s' = kp \<and> process_mem_pool s' = pp \<and>
           last (console s') = Puts ''Page fault handled\<newline> '' \<and>
           pmem s' (page_directory cpt + 4 * pd_index_of (cr2 s)) = k * PAGE_SIZE OR 3 \<and>
           pmem s' (k * PAGE_SIZE + 4 * pt_index_of (cr2 s)) = PAGE_SIZE * e OR 3 \<and>
           (\<forall>j. j < 1024 \<and> of_nat j \<noteq> pt_index_of (cr2 s) \<longrightarrow>
                pmem s' (k * PAGE_SIZE + 4 * of_nat j) = 0) \<and>
           (\<forall>a. a \<noteq> page_directory cpt + 4 * pd_index_of (cr2 s) \<and>
                (\<forall>j. j < 1024 \<longrightarrow> a \<noteq> k * PAGE_SIZE + 4 * of_nat j) \<longrightarrow>
                pmem s' a = pmem s a)"
proof -
  define pd where "pd = pd_index_of (cr2 s)"
  define pt where "pt = pt_index_of (cr2 s)"
  have pdm: "pd AND 0x3FF = pd" "pt AND 0x3FF = pt" by (simp_all add: pd_def pt_def)
  from rdy have c: "current_page_table s = Some cpt" and on: "paging_on s"
    and cr: "cr3 s = page_directory cpt" and D: "aligned (page_directory cpt)"
    and self: "pmem s (page_directory cpt + 4 * 1023) = page_directory cpt OR 3"
    and idm: "translate s (page_directory cpt + 4 * pd) = Some (page_directory cpt + 4 * pd)"
    by (simp_all add: fault_ready_def pd_def)
  define s1 where "s1 = print_fault (cr2 s) pd pt s"
  define v where "v = pmem s (page_directory cpt + 4 * pd)"
  define s2 where "s2 = puts ''\<newline>'' (putui v (puts ''Page directory entry for fault: '' s1))"
  have rd: "deref s1 (page_directory cpt + 4 * pd) = Some v"
    using idm by (simp add: deref_def s1_def print_fault_def puts_def putui_def v_def)
  have v0: "v AND 1 = 0" using absent by (simp add: v_def pd_def)
  have hf: "handle_fault r s = directory_miss cpt pd pt s2"
    using c rd v0 by (simp add: handle_fault_def Let_def s1_def s2_def pd_def pt_def)
  have s2: "paging_on s2" "cr3 s2 = page_directory cpt" "pmem s2 = pmem s"
    "translate s2 = translate s" "kernel_mem_pool s2 = kernel_mem_pool s"
    "process_mem_pool s2 = process_mem_pool s" "cr0 s2 = cr0 s" "cr2 s2 = cr2 s"
    "current_page_table s2 = current_page_table s"
    using on cr by (simp_all add: s2_def s1_def print_fault_def puts_def putui_def paging_on_def)
  have self2: "pmem s2 (page_directory cpt + 4 * 1023) = page_directory cpt OR 3"
    and idm2: "translate s2 (page_directory cpt + 4 * pd) = Some (page_directory cpt + 4 * pd)"
    and abs2: "pmem s2 (page_directory cpt + 4 * pd) AND 1 = 0"
    and k2: "get_frames (kernel_mem_pool s2) = (k, kp)"
    and e2: "get_frames (process_mem_pool s2) = (e, pp)"
    using self idm absent k(1) e s2 by (simp_all add: pd_def)
  from directory_miss_result[OF s2(1,2) D self2 pdm idm2 abs2 k2 k(2,3) e2]
  show ?thesis
    unfolding hf pd_def[symmetric] pt_def[symmetric]
    using s2 cr by auto
qed


lemma entry_at_pd: "aligned b \<Longrightarrow> entry_at b (drop_bit 22 va) = b + 4 * pd_index_of va"
  using entry_at_add[of b "drop_bit 22 va"] by (simp add: pd_index_of_def)

lemma entry_at_pt: "aligned b \<Longrightarrow> entry_at (b OR 3) (drop_bit 12 va) = b + 4 * pt_index_of va"
  using entry_at_add[of b "drop_bit 12 va"]
  by (simp add: pt_index_of_def entry_at_def page_base_flags page_base_aligned)

lemma window_slot_translate:
  assumes "paging_on s" "cr3 s = D" "aligned D" "pmem s (D + 4 * 1023) = D OR 3"
    and "p AND 0x3FF = p" and "pmem s (D + 4 * p) = N OR 3" and "aligned N" and "j < 1024"
  shows "translate s ((0xFFC00000 OR push_bit 12 p) + 4 * of_nat j) = Some (N + 4 * of_nat j)"
  using translate_window_full[OF assms(1-5) of_nat_idx[OF assms(8)]] assms(6,7)
  by (simp add: flags_present page_base_flags)


lemma page_base_three: "page_base 3 = 0"
  using page_base_flags[of 0] by (simp add: aligned_def)

lemma load_enable_regs:
  "page_directory cpt \<noteq> 0 \<Longrightarrow>
   cr3 (enable_paging (load cpt s)) = page_directory cpt \<and>
   pmem (enable_paging (load cpt s)) = pmem s \<and>
   current_page_table (enable_paging (load cpt s)) = Some cpt \<and>
   paging_enabled (enable_paging (load cpt s)) = 1"
  by (simp add: enable_paging_def load_def puts_def)

section \<open>Every store writes a well-formed entry\<close>

lemma entry_ok_0: "entry_ok 0" by (simp add: entry_ok_def)
lemma entry_ok_2: "entry_ok 2" by (simp add: entry_ok_def)
lemma entry_ok_flags: "aligned b \<Longrightarrow> entry_ok (b OR 3)"
proof -
  assume a: "aligned b"
  have 1: "(b OR 3) AND 4 = 0"
  proof (rule bit_eqI)
    fix n
    have "(4::word32) = push_bit 2 1" by simp
    then have "bit (4::word32) n \<longleftrightarrow> n = 2" by (simp only: bit_simps) auto
    then show "bit ((b OR 3) AND 4) n = bit (0::word32) n"
      using aligned_bit[OF a, of 2] unfolding m2 by (auto simp: bit_simps)
  qed
  have 2: "(b OR 3) AND 2 = 2"
  proof (rule bit_eqI)
    fix n
    have "(2::word32) = push_bit 1 1" by simp
    then have "bit (2::word32) n \<longleftrightarrow> n = 1" by (simp only: bit_simps) auto
    then show "bit ((b OR 3) AND 2) n = bit (2::word32) n"
      unfolding m2 by (auto simp: bit_simps)
  qed
  show ?thesis using 1 2 by (simp add: entry_ok_def)
qed

lemma aligned_next: "aligned a \<Longrightarrow> aligned (a + PAGE_SIZE)"
proof -
  assume a: "aligned a"
  have "bit a n = bit (push_bit 12 (drop_bit 12 a)) n" for n
  proof (cases "n < 12")
    case True
    then show ?thesis using aligned_bit[OF a True] by (simp add: bit_simps)
  next
    case False
    then show ?thesis by (auto simp: bit_simps dest: bit_imp_le_length)
  qed
  then have "a = drop_bit 12 a * PAGE_SIZE"
    unfolding page_mult by (simp add: bit_eq_iff)
  then have "a + PAGE_SIZE = (drop_bit 12 a + 1) * PAGE_SIZE"
    by (metis distrib_right mult_1)
  then show ?thesis using aligned_frame by metis
qed

lemma map_first_4MB_mem:
  assumes upd: "\<And>m pa v. Q m \<Longrightarrow> entry_ok v \<Longrightarrow> Q (m(pa := v))"
  shows "Q (pmem s) \<Longrightarrow> aligned address \<Longrightarrow> Q (pmem (final (map_first_4MB tbl i address s)))"
proof (induction tbl i address s rule: map_first_4MB.induct)
  case (1 tbl i address s)
  show ?case
  proof (cases "i < 1024")
    case False
    with "1.prems" show ?thesis by (simp add: map_first_4MB.simps[of tbl i address s])
  next
    case True
    show ?thesis
    proof (cases "assign s (tbl + 4 * of_nat i) (address OR 3)")
      case None
      with True "1.prems" show ?thesis by (simp add: map_first_4MB.simps[of tbl i address s])
    next
      case (Some s')
      have "Q (pmem s')"
        using assignD[OF Some] upd[OF "1.prems"(1) entry_ok_flags[OF "1.prems"(2)]] by auto
      with True "1.IH"[OF True Some _ aligned_next[OF "1.prems"(2)]] Some show ?thesis
        by (simp add: map_first_4MB.simps[of tbl i address s])
    qed
  qed
qed

lemma mark_not_present_mem:
  assumes upd: "\<And>m pa v. Q m \<Longrightarrow> entry_ok v \<Longrightarrow> Q (m(pa := v))"
  shows "Q (pmem s) \<Longrightarrow> Q (pmem (final (mark_not_present dir i s)))"
proof (induction dir i s rule: mark_not_present.induct)
  case (1 dir i s)
  show ?case
  proof (cases "i < 1024")
    case False
    with "1.prems" show ?thesis by (simp add: mark_not_present.simps[of dir i s])
  next
    case True
    show ?thesis
    proof (cases "assign s (dir + 4 * of_nat i) 2")
      case None
      with True "1.prems" show ?thesis by (simp add: mark_not_present.simps[of dir i s])
    next
      case (Some s')
      have "Q (pmem s')"
        using assignD[OF Some] upd[OF "1.prems"(1) entry_ok_2] by auto
      with True "1.IH"[OF True Some] Some show ?thesis
        by (simp add: mark_not_present.simps[of dir i s])
    qed
  qed
qed

lemma directory_miss_mem:
  assumes upd: "\<And>m pa v. Q m \<Longrightarrow> entry_ok v \<Longrightarrow> Q (m(pa := v))"
  shows "Q (pmem s) \<Longrightarrow> Q (pmem (final (directory_miss cpt pd pt s)))"
proof -
  assume Q: "Q (pmem s)"
  have u0: "\<And>m pa. Q m \<Longrightarrow> Q (m(pa := 0))" using upd entry_ok_0 by blast
  have okf: "entry_ok (f * PAGE_SIZE OR 3)" for f
    using entry_ok_flags[OF aligned_frame] .
  show ?thesis
    unfolding directory_miss_def Let_def
    by (auto split: prod.splits option.splits outcome.splits simp: Q mult.commute[of PAGE_SIZE]
        dest!: assignD finalR[of "clear_entries _ _ _"] finalF[of "clear_entries _ _ _"]
        intro!: upd okf clear_entries_mem[of Q, OF u0])
qed

lemma directory_hit_mem:
  assumes upd: "\<And>m pa v. Q m \<Longrightarrow> entry_ok v \<Longrightarrow> Q (m(pa := v))"
  shows "Q (pmem s) \<Longrightarrow> Q (pmem (final (directory_hit cpt pd pt s)))"
proof -
  assume Q: "Q (pmem s)"
  have okf: "entry_ok (f * PAGE_SIZE OR 3)" for f
    using entry_ok_flags[OF aligned_frame] .
  show ?thesis
    unfolding directory_hit_def Let_def
    by (auto split: prod.splits option.splits simp: Q dest!: assignD intro!: upd okf)
qed

lemma handle_fault_mem:
  assumes upd: "\<And>m pa v. Q m \<Longrightarrow> entry_ok v \<Longrightarrow> Q (m(pa := v))"
  shows "Q (pmem s) \<Longrightarrow> Q (pmem (final (handle_fault r s)))"
proof -
  assume Q: "Q (pmem s)"
  have pf: "pmem (print_fault a b c s) = pmem s" for a b c
    by (simp add: print_fault_def)
  show ?thesis
    unfolding handle_fault_def Let_def
    by (auto split: option.splits simp: Q pf
          intro!: directory_miss_mem[of Q, OF upd] directory_hit_mem[of Q, OF upd])
qed

lemma build_tables_mem:
  assumes upd: "\<And>m pa v. Q m \<Longrightarrow> entry_ok v \<Longrightarrow> Q (m(pa := v))"
  shows "Q (pmem s) \<Longrightarrow> aligned D \<Longrightarrow> Q (pmem (final (build_tables D t s)))"
proof -
  assume Q: "Q (pmem s)" and D: "aligned D"
  have z: "aligned 0" by (simp add: aligned_def)
  have m1: "Q (pmem (final (map_first_4MB tbl 0 0 s)))" for tbl
    using map_first_4MB_mem[of Q s 0 tbl 0, OF upd Q z] .
  have okT: "entry_ok (t * PAGE_SIZE OR 3)" using entry_ok_flags[OF aligned_frame] .
  have okD: "entry_ok (D OR 3)" using entry_ok_flags[OF D] .
  show ?thesis
    unfolding build_tables_def Let_def
    using m1[of "t * PAGE_SIZE"]
    by (auto split: option.splits outcome.splits
          dest!: assignD finalR[of "mark_not_present _ _ _"] finalF[of "mark_not_present _ _ _"]
          intro!: upd okT okD mark_not_present_mem[of Q, OF upd])
qed

lemma PageTable_mem:
  assumes upd: "\<And>m pa v. Q m \<Longrightarrow> entry_ok v \<Longrightarrow> Q (m(pa := v))"
  shows "Q (pmem s) \<Longrightarrow> Q (pmem (final (PageTable s)))"
proof -
  assume Q: "Q (pmem s)"
  have u0: "\<And>m pa. Q m \<Longrightarrow> Q (m(pa := 0))" using upd entry_ok_0 by blast
  obtain d kp1 where g: "get_frames (kernel_mem_pool s) = (d, kp1)"
    by (cases "get_frames (kernel_mem_pool s)")
  define D where "D = d * PAGE_SIZE"
  let ?s1 = "s\<lparr>kernel_mem_pool := kp1\<rparr>"
  have c: "Q (pmem (final (clear_entries D 0 ?s1)))"
    using clear_entries_mem[of Q ?s1, OF u0] Q by simp
  show ?thesis
  proof (cases "clear_entries D 0 ?s1")
    case (Faulted va sf)
    then have "PageTable s = Faulted va sf"
      unfolding PageTable_def Let_def using g by (simp add: D_def)
    with c Faulted show ?thesis by simp
  next
    case (Returned u s2)
    obtain t kp2 where g2: "get_frames (kernel_mem_pool s2) = (t, kp2)"
      by (cases "get_frames (kernel_mem_pool s2)")
    let ?s3 = "s2\<lparr>kernel_mem_pool := kp2\<rparr>"
    have Q3: "Q (pmem ?s3)" using c Returned by simp
    have run: "PageTable s =
        (if t = 0 then Returned \<lparr>page_directory = D\<rparr>
             (puts ''Failed to allocate first page table\<newline>'' ?s3)
         else build_tables D t ?s3)"
      unfolding PageTable_def Let_def using g g2 Returned by (simp add: D_def)
    show ?thesis
      unfolding run
      using Q3 build_tables_mem[of Q ?s3 D t, OF upd Q3] aligned_frame[of d]
      by (simp add: D_def)
  qed
qed

lemma entries_written_pointwise:
  "entries_written m m' \<Longrightarrow> m' a = m a \<or> entry_ok (m' a)"
  by (induction rule: entries_written.induct) auto


section \<open>A fault taken twice\<close>

lemma translate_frame:
  assumes "translate s va = Some x" and "cr0 s' = cr0 s" and "cr3 s' = cr3 s"
    and "pmem s' (entry_at (cr3 s) (drop_bit 22 va)) = pmem s (entry_at (cr3 s) (drop_bit 22 va))"
    and "pmem s' (entry_at (pmem s (entry_at (cr3 s) (drop_bit 22 va))) (drop_bit 12 va)) =
         pmem s (entry_at (pmem s (entry_at (cr3 s) (drop_bit 22 va))) (drop_bit 12 va))"
  shows "translate s' va = Some x"
  using assms by (simp add: translate_def paging_on_def Let_def split: if_splits)

lemma translate_walk_present:
  assumes "translate s va = Some x" and "paging_on s"
  shows "pmem s (entry_at (cr3 s) (drop_bit 22 va)) AND 1 \<noteq> 0 \<and>
         pmem s (entry_at (pmem s (entry_at (cr3 s) (drop_bit 22 va))) (drop_bit 12 va)) AND 1 \<noteq> 0"
  using assms by (simp add: translate_def Let_def split: if_splits)

lemma translate_stable:
  assumes "translate s va = Some x" and "pmem s pa AND 1 = 0"
  shows "translate (s\<lparr>pmem := (pmem s)(pa := w)\<rparr>) va = Some x"
proof (cases "paging_on s")
  case False
  with assms show ?thesis by (simp add: translate_def)
next
  case True
  from translate_walk_present[OF assms(1) True] assms(2)
  have "entry_at (cr3 s) (drop_bit 22 va) \<noteq> pa"
    "entry_at (pmem s (entry_at (cr3 s) (drop_bit 22 va))) (drop_bit 12 va) \<noteq> pa"
    by auto
  then show ?thesis
    by (intro translate_frame[OF assms(1)]) simp_all
qed

lemma hit_present_result:
  assumes c: "current_page_table s = Some cpt"
    and rd: "translate s (page_directory cpt + 4 * pd_index_of (cr2 s)) = Some a"
    and v: "pmem s a AND 1 \<noteq> 0"
    and rt: "translate s (page_base (pmem s a) + 4 * pt_index_of (cr2 s)) = Some b"
    and w: "pmem s b AND 1 \<noteq> 0"
  shows "\<exists>s'. handle_fault r s = Returned () s' \<and> pmem s' = pmem s \<and>
           kernel_mem_pool s' = kernel_mem_pool s \<and> process_mem_pool s' = process_mem_pool s \<and>
           last (console s') = Puts ''Page fault handled successfully\<newline>''"
  using assms
  by (simp add: handle_fault_def Let_def directory_hit_def deref_def print_fault_def
        puts_def putui_def page_base_alt)


lemma walk_unchanged:
  assumes tr: "translate s va = Some x" and on: "paging_on s" and cr: "cr3 s = D"
    and D: "aligned D" and N: "aligned N" and ND: "N \<noteq> D"
    and wt: "walk_table s va \<noteq> N" and ab: "pmem s y AND 1 = 0"
    and regs: "cr0 s' = cr0 s" "cr3 s' = cr3 s"
    and frame: "\<forall>a. a \<noteq> y \<and> (\<forall>j. j < 1024 \<longrightarrow> a \<noteq> N + 4 * of_nat j) \<longrightarrow> pmem s' a = pmem s a"
  shows "translate s' va = Some x"
proof -
  let ?a1 = "entry_at (cr3 s) (drop_bit 22 va)"
  let ?a2 = "entry_at (pmem s ?a1) (drop_bit 12 va)"
  have pr: "pmem s ?a1 AND 1 \<noteq> 0" "pmem s ?a2 AND 1 \<noteq> 0"
    using translate_walk_present[OF tr on] by simp_all
  have pbN: "page_base (N + 4 * of_nat j) = N" if "j < 1024" for j
    using page_base_slot[OF N of_nat_idx[OF that]] .
  have p1: "page_base ?a1 = D"
    using cr by (simp add: page_base_entry_at page_base_aligned[OF D])
  have p2: "page_base ?a2 \<noteq> N"
    using wt by (simp add: page_base_entry_at walk_table_def)
  have n1: "?a1 \<noteq> N + 4 * of_nat j" if "j < 1024" for j
    using pbN[OF that] p1 ND by metis
  have n2: "?a2 \<noteq> N + 4 * of_nat j" if "j < 1024" for j
    using pbN[OF that] p2 by metis
  have y1: "?a1 \<noteq> y" "?a2 \<noteq> y" using pr ab by auto
  have e1: "pmem s' ?a1 = pmem s ?a1" using frame y1(1) n1 by blast
  have e2: "pmem s' ?a2 = pmem s ?a2" using frame y1(2) n2 by blast
  show ?thesis using translate_frame[OF tr regs e1 e2] .
qed

lemma retry_after_directory_miss:
  assumes rdy: "fault_ready s cpt"
    and absent: "pmem s (page_directory cpt + 4 * pd_index_of (cr2 s)) AND 1 = 0"
    and k: "get_frames (kernel_mem_pool s) = (k, kp)" "k \<noteq> 0"
      "k * PAGE_SIZE \<noteq> page_directory cpt"
    and e: "get_frames (process_mem_pool s) = (e, pp)"
    and idt: "translate s (k * PAGE_SIZE + 4 * pt_index_of (cr2 s)) =
                Some (k * PAGE_SIZE + 4 * pt_index_of (cr2 s))"
    and w1: "walk_table s (page_directory cpt + 4 * pd_index_of (cr2 s)) \<noteq> k * PAGE_SIZE"
    and w2: "walk_table s (k * PAGE_SIZE + 4 * pt_index_of (cr2 s)) \<noteq> k * PAGE_SIZE"
  shows "quiet_retry r s cpt"
proof -
  define D where "D = page_directory cpt"
  define N where "N = k * PAGE_SIZE"
  define pd where "pd = pd_index_of (cr2 s)"
  define pt where "pt = pt_index_of (cr2 s)"
  from rdy have c: "current_page_table s = Some cpt" and on: "paging_on s"
    and cr: "cr3 s = D" and Da: "aligned D"
    and idm: "translate s (D + 4 * pd) = Some (D + 4 * pd)"
    by (simp_all add: fault_ready_def D_def pd_def)
  have Na: "aligned N" by (simp add: N_def aligned_frame)
  have ND: "N \<noteq> D" using k(3) by (simp add: N_def D_def)
  obtain s1 where r1: "handle_fault r s = Returned () s1"
    and regs: "cr0 s1 = cr0 s" "cr2 s1 = cr2 s" "cr3 s1 = cr3 s"
      "current_page_table s1 = current_page_table s"
    and A: "pmem s1 (D + 4 * pd) = N OR 3"
    and B: "pmem s1 (N + 4 * pt) = PAGE_SIZE * e OR 3"
    and F: "\<forall>a. a \<noteq> D + 4 * pd \<and> (\<forall>j. j < 1024 \<longrightarrow> a \<noteq> N + 4 * of_nat j) \<longrightarrow>
                pmem s1 a = pmem s a"
    using handle_fault_miss_result[OF rdy absent k e, of r]
    unfolding D_def N_def pd_def pt_def by blast
  have ab: "pmem s (D + 4 * pd) AND 1 = 0" using absent by (simp add: D_def pd_def)
  have t1: "translate s1 (D + 4 * pd) = Some (D + 4 * pd)"
    using walk_unchanged[OF idm on cr Da Na ND _ ab regs(1,3) F] w1
    by (simp add: D_def N_def pd_def)
  have t2: "translate s1 (N + 4 * pt) = Some (N + 4 * pt)"
    using walk_unchanged[OF _ on cr Da Na ND _ ab regs(1,3) F, of "N + 4 * pt" "N + 4 * pt"] idt w2
    by (simp add: N_def pt_def)
  have c1: "current_page_table s1 = Some cpt" using c regs by simp
  have pA: "pmem s1 (D + 4 * pd) AND 1 \<noteq> 0" using A flags_present[of N] by simp
  have pbA: "page_base (pmem s1 (D + 4 * pd)) = N" using A page_base_flags[OF Na] by simp
  have pB: "pmem s1 (N + 4 * pt) AND 1 \<noteq> 0" using B flags_present[of "PAGE_SIZE * e"] by simp
  obtain s2 where r2: "handle_fault r s1 = Returned () s2" and m2: "pmem s2 = pmem s1"
    and p2: "kernel_mem_pool s2 = kernel_mem_pool s1" "process_mem_pool s2 = process_mem_pool s1"
    and l2: "last (console s2) = Puts ''Page fault handled successfully\<newline>''"
    using hit_present_result[of s1 cpt "D + 4 * pd" "N + 4 * pt" r] c1 t1 t2 pA pB pbA regs(2)
    by (auto simp: D_def pd_def pt_def)
  show ?thesis
    unfolding quiet_retry_def
    using r1 r2 m2 p2 l2 pA pB pbA
    by (intro exI[of _ s1] exI[of _ s2]) (simp add: D_def pd_def pt_def)
qed

lemma hit_absent_result:
  assumes c: "current_page_table s = Some cpt"
    and rd: "translate s (page_directory cpt + 4 * pd_index_of (cr2 s)) = Some a"
    and v: "pmem s a AND 1 \<noteq> 0"
    and rt: "translate s (page_base (pmem s a) + 4 * pt_index_of (cr2 s)) = Some b"
    and w: "pmem s b AND 1 = 0"
    and g: "get_frames (process_mem_pool s) = (f, pp)" "f \<noteq> 0"
  shows "\<exists>s'. handle_fault r s = Returned () s' \<and>
           pmem s' = (pmem s)(b := f * PAGE_SIZE OR 3) \<and>
           cr0 s' = cr0 s \<and> cr2 s' = cr2 s \<and> cr3 s' = cr3 s \<and>
           current_page_table s' = current_page_table s"
  using assms
  by (simp add: handle_fault_def Let_def directory_hit_def deref_def assign_def print_fault_def
        puts_def putui_def page_base_alt)

lemma retry_after_table_miss:
  assumes rdy: "fault_ready s cpt"
    and present: "pmem s (page_directory cpt + 4 * pd_index_of (cr2 s)) AND 1 \<noteq> 0"
    and idt: "translate s (page_base (pmem s (page_directory cpt + 4 * pd_index_of (cr2 s))) +
                           4 * pt_index_of (cr2 s)) =
                Some (page_base (pmem s (page_directory cpt + 4 * pd_index_of (cr2 s))) +
                           4 * pt_index_of (cr2 s))"
    and absent: "pmem s (page_base (pmem s (page_directory cpt + 4 * pd_index_of (cr2 s))) +
                           4 * pt_index_of (cr2 s)) AND 1 = 0"
    and g: "get_frames (process_mem_pool s) = (f, pp)" "f \<noteq> 0"
  shows "quiet_retry r s cpt"
proof -
  define a where "a = page_directory cpt + 4 * pd_index_of (cr2 s)"
  define b where "b = page_base (pmem s a) + 4 * pt_index_of (cr2 s)"
  from rdy have c: "current_page_table s = Some cpt"
    and idm: "translate s a = Some a"
    by (simp_all add: fault_ready_def a_def)
  have idb: "translate s b = Some b" using idt by (simp add: a_def b_def)
  have pa: "pmem s a AND 1 \<noteq> 0" using present by (simp add: a_def)
  have ab: "pmem s b AND 1 = 0" using absent by (simp add: a_def b_def)
  have neq: "a \<noteq> b" using pa ab by auto
  obtain s1 where r1: "handle_fault r s = Returned () s1"
    and m1: "pmem s1 = (pmem s)(b := f * PAGE_SIZE OR 3)"
    and regs: "cr0 s1 = cr0 s" "cr2 s1 = cr2 s" "cr3 s1 = cr3 s"
      "current_page_table s1 = current_page_table s"
    using hit_absent_result[of s cpt a b f pp r] c idm pa idb ab g
    by (auto simp: a_def b_def)
  have st: "translate s1 va = Some x" if "translate s va = Some x" for va x
  proof -
    have "translate (s\<lparr>pmem := (pmem s)(b := f * PAGE_SIZE OR 3)\<rparr>) va = Some x"
      using translate_stable[OF that ab] .
    moreover have "translate s1 va = translate (s\<lparr>pmem := (pmem s)(b := f * PAGE_SIZE OR 3)\<rparr>) va"
      using m1 regs by (simp add: translate_def paging_on_def Let_def)
    ultimately show ?thesis by simp
  qed
  have va: "pmem s1 a = pmem s a" using m1 neq by simp
  have pa1: "pmem s1 a AND 1 \<noteq> 0" using pa va by simp
  have vb: "pmem s1 b = f * PAGE_SIZE OR 3" using m1 by simp
  have pb1: "pmem s1 b AND 1 \<noteq> 0" using vb flags_present[of "f * PAGE_SIZE"] by simp
  have c1: "current_page_table s1 = Some cpt" using c regs by simp
  obtain s2 where r2: "handle_fault r s1 = Returned () s2" and m2: "pmem s2 = pmem s1"
    and p2: "kernel_mem_pool s2 = kernel_mem_pool s1" "process_mem_pool s2 = process_mem_pool s1"
    and l2: "last (console s2) = Puts ''Page fault handled successfully\<newline>''"
    using hit_present_result[of s1 cpt a b r] c1 st[OF idm] st[OF idb] pa1 pb1 va regs(2)
    by (auto simp: a_def b_def)
  show ?thesis
    unfolding quiet_retry_def
    using r1 r2 m2 p2 l2 pa1 pb1 va
    by (intro exI[of _ s1] exI[of _ s2]) (simp add: a_def b_def)
qed



text \<open>
  Both first-touch paths together.  A fault on a page never touched before, taken for the
  active table, and taken again on the state the first run leaves.  Either the directory
  entry is absent, the kernel pool hands out a frame that is not the directory's, that
  can be reached at its physical address and that is not already the table mapping the
  directory or itself; or the directory entry is present, its table can be reached at its
  physical address, the table entry is absent and the process pool hands out a frame.
  Then the second run returns having found both entries present, with memory and both
  pools exactly as the first run left them.
\<close>

lemma retry_quiet_reachable_table:
  assumes "fault_ready s cpt"
  shows "(pmem s (page_directory cpt + 4 * pd_index_of (cr2 s)) AND 1 = 0 \<and>
          get_frames (kernel_mem_pool s) = (k, kp) \<and> k \<noteq> 0 \<and>
          k * PAGE_SIZE \<noteq> page_directory cpt \<and>
          translate s (k * PAGE_SIZE + 4 * pt_index_of (cr2 s)) =
            Some (k * PAGE_SIZE + 4 * pt_index_of (cr2 s)) \<and>
          walk_table s (page_directory cpt + 4 * pd_index_of (cr2 s)) \<noteq> k * PAGE_SIZE \<and>
          walk_table s (k * PAGE_SIZE + 4 * pt_index_of (cr2 s)) \<noteq> k * PAGE_SIZE
          \<longrightarrow> quiet_retry r s cpt) \<and>
         (pmem s (page_directory cpt + 4 * pd_index_of (cr2 s)) AND 1 \<noteq> 0 \<and>
          translate s (page_base (pmem s (page_directory cpt + 4 * pd_index_of (cr2 s))) +
                       4 * pt_index_of (cr2 s)) =
            Some (page_base (pmem s (page_directory cpt + 4 * pd_index_of (cr2 s))) +
                  4 * pt_index_of (cr2 s)) \<and>
          pmem s (page_base (pmem s (page_directory cpt + 4 * pd_index_of (cr2 s))) +
                  4 * pt_index_of (cr2 s)) AND 1 = 0 \<and>
          get_frames (process_mem_pool s) = (f, pp) \<and> f \<noteq> 0
          \<longrightarrow> quiet_retry r s cpt)"
proof (intro conjI impI)
  assume h: "pmem s (page_directory cpt + 4 * pd_index_of (cr2 s)) AND 1 = 0 \<and>
          get_frames (kernel_mem_pool s) = (k, kp) \<and> k \<noteq> 0 \<and>
          k * PAGE_SIZE \<noteq> page_directory cpt \<and>
          translate s (k * PAGE_SIZE + 4 * pt_index_of (cr2 s)) =
            Some (k * PAGE_SIZE + 4 * pt_index_of (cr2 s)) \<and>
          walk_table s (page_directory cpt + 4 * pd_index_of (cr2 s)) \<noteq> k * PAGE_SIZE \<and>
          walk_table s (k * PAGE_SIZE + 4 * pt_index_of (cr2 s)) \<noteq> k * PAGE_SIZE"
  obtain e pp' where e: "get_frames (process_mem_pool s) = (e, pp')"
    by (cases "get_frames (process_mem_pool s)")
  from h show "quiet_retry r s cpt"
    using retry_after_directory_miss[OF assms _ _ _ _ e, of k kp r] by blast
next
  assume h: "pmem s (page_directory cpt + 4 * pd_index_of (cr2 s)) AND 1 \<noteq> 0 \<and>
          translate s (page_base (pmem s (page_directory cpt + 4 * pd_index_of (cr2 s))) +
                       4 * pt_index_of (cr2 s)) =
            Some (page_base (pmem s (page_directory cpt + 4 * pd_index_of (cr2 s))) +
                  4 * pt_index_of (cr2 s)) \<and>
          pmem s (page_base (pmem s (page_directory cpt + 4 * pd_index_of (cr2 s))) +
                  4 * pt_index_of (cr2 s)) AND 1 = 0 \<and>
          get_frames (process_mem_pool s) = (f, pp) \<and> f \<noteq> 0"
  then show "quiet_retry r s cpt"
    using retry_after_table_miss[OF assms, of f pp r] by blast
qed

text \<open>
  Both paths on the small running system, whose kernel pool hands out frame 3, a page
  that the first table maps onto itself.
\<close>

lemma retry_quiet_examples:
  "fault_ready demo_state \<lparr>page_directory = 0x1000\<rparr> \<and>
   quiet_retry () demo_state \<lparr>page_directory = 0x1000\<rparr> \<and>
   fault_ready (demo_state\<lparr>cr2 := 0x5000\<rparr>) \<lparr>page_directory = 0x1000\<rparr> \<and>
   quiet_retry () (demo_state\<lparr>cr2 := 0x5000\<rparr>) \<lparr>page_directory = 0x1000\<rparr>"
proof -
  let ?cpt = "\<lparr>page_directory = 0x1000\<rparr>"
  let ?s2 = "demo_state\<lparr>cr2 := 0x5000\<rparr>"
  note ev = demo_state_def paging_on_def demo_mem_def translate_def entry_at_def
          page_base_def pd_index_of_def pt_index_of_def walk_table_def PAGE_SIZE_def Let_def
  have rdy: "fault_ready demo_state ?cpt"
    by (simp add: fault_ready_def aligned_def) (simp add: ev)
  have h1: "pmem demo_state (page_directory ?cpt + 4 * pd_index_of (cr2 demo_state)) AND 1 = 0 \<and>
          get_frames (kernel_mem_pool demo_state) = (3, []) \<and> (3::word32) \<noteq> 0 \<and>
          3 * PAGE_SIZE \<noteq> page_directory ?cpt \<and>
          translate demo_state (3 * PAGE_SIZE + 4 * pt_index_of (cr2 demo_state)) =
            Some (3 * PAGE_SIZE + 4 * pt_index_of (cr2 demo_state)) \<and>
          walk_table demo_state (page_directory ?cpt + 4 * pd_index_of (cr2 demo_state)) \<noteq> 3 * PAGE_SIZE \<and>
          walk_table demo_state (3 * PAGE_SIZE + 4 * pt_index_of (cr2 demo_state)) \<noteq> 3 * PAGE_SIZE"
    by (simp add: ev)
  have rdy2: "fault_ready ?s2 ?cpt"
    by (simp add: fault_ready_def aligned_def) (simp add: ev)
  have h2: "pmem ?s2 (page_directory ?cpt + 4 * pd_index_of (cr2 ?s2)) AND 1 \<noteq> 0 \<and>
          translate ?s2 (page_base (pmem ?s2 (page_directory ?cpt + 4 * pd_index_of (cr2 ?s2))) +
                       4 * pt_index_of (cr2 ?s2)) =
            Some (page_base (pmem ?s2 (page_directory ?cpt + 4 * pd_index_of (cr2 ?s2))) +
                  4 * pt_index_of (cr2 ?s2)) \<and>
          pmem ?s2 (page_base (pmem ?s2 (page_directory ?cpt + 4 * pd_index_of (cr2 ?s2))) +
                  4 * pt_index_of (cr2 ?s2)) AND 1 = 0 \<and>
          get_frames (process_mem_pool ?s2) = (1024, []) \<and> (1024::word32) \<noteq> 0"
    by (simp add: ev)
  from retry_quiet_reachable_table[OF rdy, of 3 "[]" "()" 0 "[]"] h1
  have q1: "quiet_retry () demo_state ?cpt" by blast
  from retry_quiet_reachable_table[OF rdy2, of 0 "[]" "()" 1024 "[]"] h2
  have q2: "quiet_retry () ?s2 ?cpt" by blast
  show ?thesis using rdy q1 rdy2 q2 by blast
qed

text \<open>
  The handler reads a second-level table through its physical address.  Where that
  address does not resolve, the run that finds the directory entry present stops at a
  page fault of its own, having changed neither memory nor the pools.
\<close>

lemma hit_table_unreachable:
  assumes c: "current_page_table s = Some cpt"
    and rd: "translate s (page_directory cpt + 4 * pd_index_of (cr2 s)) = Some a"
    and v: "pmem s a AND 1 \<noteq> 0"
    and rt: "translate s (page_base (pmem s a) + 4 * pt_index_of (cr2 s)) = None"
  shows "\<exists>s'. handle_fault r s = Faulted (page_base (pmem s a) + 4 * pt_index_of (cr2 s)) s' \<and>
           pmem s' = pmem s \<and> kernel_mem_pool s' = kernel_mem_pool s \<and>
           process_mem_pool s' = process_mem_pool s"
  using assms
  by (simp add: handle_fault_def Let_def directory_hit_def deref_def print_fault_def
        puts_def putui_def page_base_alt)

lemma other_page: "aligned N \<Longrightarrow> page_base a \<noteq> N \<Longrightarrow> j < 1024 \<Longrightarrow> a \<noteq> N + 4 * of_nat j"
  using page_base_slot[of N "of_nat j"] of_nat_idx[of j] by auto

section \<open>The state in which faults are taken\<close>

text \<open>
  \<open>fault_ready\<close> does not depend on the faulting address; construction, loading and
  enabling establish it when the directory's frame lies in the first 4 MiB; and the
  handler keeps it whenever the frame the kernel pool hands out is neither the
  directory's nor that of the table through which the directory is mapped.
\<close>

lemma slot_walk_indices:
  assumes D: "aligned D" and x: "x AND 0x3FF = x"
  shows "drop_bit 22 (D + 4 * x) = drop_bit 22 D" "drop_bit 12 (D + 4 * x) = drop_bit 12 D"
    "(D + 4 * x) AND 0xFFF = 4 * x"
proof -
  have "D + 4 * (x AND 0x3FF) = D OR push_bit 2 (x AND 0x3FF)"
    using entry_at_add[OF D, of x] unfolding entry_at_def page_base_aligned[OF D] .
  then have e: "D + 4 * x = D OR push_bit 2 x" unfolding x .
  have xb: "n < 10" if "bit x n" for n
  proof -
    have "bit (x AND mask 10) n" using that x by (simp add: m10)
    then show ?thesis by (simp add: bit_simps)
  qed
  have hi: "\<not> bit x (k + n)" if "10 \<le> k" for n k
    using xb[of "k + n"] that by auto
  show "drop_bit 22 (D + 4 * x) = drop_bit 22 D"
    unfolding e by (rule bit_eqI) (use hi[of 20] in \<open>auto simp: bit_simps\<close>)
  show "drop_bit 12 (D + 4 * x) = drop_bit 12 D"
    unfolding e by (rule bit_eqI) (use hi[of 10] in \<open>auto simp: bit_simps\<close>)
  show "(D + 4 * x) AND 0xFFF = 4 * x"
    using offset_entry_at[of D x] entry_at_add[OF D, of x] x by (simp add: four_mult)
qed

lemma directory_reachable:
  assumes on: "paging_on s" and D: "aligned D"
    and x: "x AND 0x3FF = x" and y: "y AND 0x3FF = y"
    and tr: "translate s (D + 4 * x) = Some (D + 4 * x)"
  shows "translate s (D + 4 * y) = Some (D + 4 * y)"
proof -
  let ?a1 = "entry_at (cr3 s) (drop_bit 22 D)"
  let ?a2 = "entry_at (pmem s ?a1) (drop_bit 12 D)"
  have pr: "pmem s ?a1 AND 1 \<noteq> 0" "pmem s ?a2 AND 1 \<noteq> 0"
    using translate_walk_present[OF tr on] by (simp_all add: slot_walk_indices[OF D x])
  have "Some (page_base (pmem s ?a2) OR 4 * x) = Some (D + 4 * x)"
    using tr on pr by (simp add: translate_def Let_def slot_walk_indices[OF D x])
  then have "page_base (page_base (pmem s ?a2) OR 4 * x) = page_base (D + 4 * x)" by simp
  moreover have "page_base (page_base e OR 4 * x) = page_base e" for e
    using page_base_entry_at[of "page_base e" x] x
    by (simp add: entry_at_def four_mult page_base_aligned[OF aligned_page_base])
  ultimately have pb: "page_base (pmem s ?a2) = D"
    using page_base_slot[OF D x] by simp
  have "D OR 4 * y = D + 4 * y"
    using entry_at_add[OF D, of y] y by (simp add: entry_at_def four_mult page_base_aligned[OF D])
  then show ?thesis
    using on pr pb by (simp add: translate_def Let_def slot_walk_indices[OF D y])
qed

lemma fault_ready_any_address:
  assumes "fault_ready s cpt" shows "fault_ready (s\<lparr>cr2 := c\<rparr>) cpt"
proof -
  from assms have on: "paging_on s" and D: "aligned (page_directory cpt)"
    and tr: "translate s (page_directory cpt + 4 * pd_index_of (cr2 s)) =
               Some (page_directory cpt + 4 * pd_index_of (cr2 s))"
    by (simp_all add: fault_ready_def)
  have t: "translate (s\<lparr>cr2 := c\<rparr>) = translate s"
    by (rule ext) (simp add: translate_def paging_on_def Let_def)
  have "translate s (page_directory cpt + 4 * pd_index_of c) =
               Some (page_directory cpt + 4 * pd_index_of c)"
    using directory_reachable[OF on D _ _ tr] by simp
  with assms show ?thesis
    by (simp add: fault_ready_def t paging_on_def)
qed


lemma directory_miss_regs:
  "cr0 (final (directory_miss cpt pd pt s)) = cr0 s \<and>
   cr2 (final (directory_miss cpt pd pt s)) = cr2 s \<and>
   cr3 (final (directory_miss cpt pd pt s)) = cr3 s \<and>
   current_page_table (final (directory_miss cpt pd pt s)) = current_page_table s"
proof -
  have sh: "\<exists>m. final (clear_entries tbl i t) = t\<lparr>pmem := m\<rparr>" for tbl i t
    by (rule clear_entries_shape)
  have R: "clear_entries tbl i t = Returned x t' \<Longrightarrow> \<exists>m. t' = t\<lparr>pmem := m\<rparr>" for tbl i t x t'
    using sh[of tbl i t] by simp
  have F: "clear_entries tbl i t = Faulted x t' \<Longrightarrow> \<exists>m. t' = t\<lparr>pmem := m\<rparr>" for tbl i t x t'
    using sh[of tbl i t] by simp
  show ?thesis
    unfolding directory_miss_def Let_def
    by (auto split: prod.splits option.splits outcome.splits simp: puts_def putui_def
          dest!: assignD R F)
qed

lemma directory_hit_shape:
  "cr0 (final (directory_hit cpt pd pt s)) = cr0 s \<and>
   cr2 (final (directory_hit cpt pd pt s)) = cr2 s \<and>
   cr3 (final (directory_hit cpt pd pt s)) = cr3 s \<and>
   current_page_table (final (directory_hit cpt pd pt s)) = current_page_table s \<and>
   (pmem (final (directory_hit cpt pd pt s)) = pmem s \<or>
    (\<exists>b v. pmem s b AND 1 = 0 \<and> pmem (final (directory_hit cpt pd pt s)) = (pmem s)(b := v)))"
  unfolding directory_hit_def Let_def
  apply (auto split: prod.splits option.splits simp: puts_def putui_def deref_def
        dest!: assignD)
  apply blast
  done

lemma translate_same:
  "cr0 s' = cr0 s \<Longrightarrow> cr3 s' = cr3 s \<Longrightarrow> pmem s' = pmem s \<Longrightarrow>
   translate s' va = translate s va"
  by (simp add: translate_def paging_on_def Let_def)

lemma handle_fault_kernel_exhausted_aux:
  assumes "current_page_table s = Some cpt"
    and "deref s (page_directory cpt + 4 * pd_index_of (cr2 s)) = Some e"
    and "e AND 1 = 0"
    and "fst (get_frames (kernel_mem_pool s)) = 0"
  shows "\<exists>s'. handle_fault r s = Returned () s' \<and> pmem s' = pmem s"
  using assms
  by (auto simp: handle_fault_def Let_def directory_miss_def print_fault_def puts_def
        putui_def split: prod.splits)

lemma fault_ready_kept:
  assumes rdy: "fault_ready s cpt"
    and ret: "handle_fault r s = Returned () s1"
    and fresh: "pmem s (page_directory cpt + 4 * pd_index_of (cr2 s)) AND 1 = 0 \<longrightarrow>
        fst (get_frames (kernel_mem_pool s)) * PAGE_SIZE \<noteq> page_directory cpt \<and>
        walk_table s (page_directory cpt + 4 * pd_index_of (cr2 s)) \<noteq>
          fst (get_frames (kernel_mem_pool s)) * PAGE_SIZE"
  shows "fault_ready s1 cpt"
proof -
  define D where "D = page_directory cpt"
  define pd where "pd = pd_index_of (cr2 s)"
  define pt where "pt = pt_index_of (cr2 s)"
  from rdy have c: "current_page_table s = Some cpt" and on: "paging_on s"
    and cr: "cr3 s = D" and Da: "aligned D"
    and self: "pmem s (D + 4 * 1023) = D OR 3"
    and idm: "translate s (D + 4 * pd) = Some (D + 4 * pd)"
    by (simp_all add: fault_ready_def D_def pd_def)
  have slot1: "pmem s1 (D + 4 * 1023) = D OR 3"
    using handle_fault_keeps_self[OF rdy, of r] ret by (simp add: D_def)
  define s0 where "s0 = print_fault (cr2 s) pd pt s"
  define v where "v = pmem s (D + 4 * pd)"
  define s2 where "s2 = puts ''\<newline>'' (putui v (puts ''Page directory entry for fault: '' s0))"
  have rd: "deref s0 (D + 4 * pd) = Some v"
    using idm by (simp add: deref_def s0_def print_fault_def puts_def putui_def v_def)
  have hf: "handle_fault r s =
      (if v AND 1 = 0 then directory_miss cpt pd pt s2 else directory_hit cpt pd pt s2)"
    using c rd by (simp add: handle_fault_def Let_def s0_def s2_def pd_def pt_def D_def)
  have s2: "cr0 s2 = cr0 s" "cr2 s2 = cr2 s" "cr3 s2 = cr3 s" "pmem s2 = pmem s"
    "current_page_table s2 = current_page_table s"
    by (simp_all add: s2_def s0_def print_fault_def puts_def putui_def)
  have fm: "final (directory_miss cpt pd pt s2) = s1" if "v AND 1 = 0"
    using hf ret that by (metis final.simps(1))
  have fh: "final (directory_hit cpt pd pt s2) = s1" if "v AND 1 \<noteq> 0"
    using hf ret that by (metis final.simps(1))
  have regs: "cr0 s1 = cr0 s" "cr2 s1 = cr2 s" "cr3 s1 = cr3 s"
    "current_page_table s1 = current_page_table s"
    using directory_miss_regs[of cpt pd pt s2] directory_hit_shape[of cpt pd pt s2] fm fh s2
    by (cases "v AND 1 = 0"; simp)+
  have tr1: "translate s1 (D + 4 * pd) = Some (D + 4 * pd)"
  proof (cases "v AND 1 = 0")
    case False
    then have "pmem s1 = pmem s \<or> (\<exists>b w. pmem s b AND 1 = 0 \<and> pmem s1 = (pmem s)(b := w))"
      using directory_hit_shape[of cpt pd pt s2] fh s2 by simp
    then show ?thesis
    proof
      assume "pmem s1 = pmem s"
      then show ?thesis
        using idm translate_same[OF regs(1,3)] by simp
    next
      assume "\<exists>b w. pmem s b AND 1 = 0 \<and> pmem s1 = (pmem s)(b := w)"
      then obtain b w where b: "pmem s b AND 1 = 0" "pmem s1 = (pmem s)(b := w)" by blast
      have "translate (s\<lparr>pmem := (pmem s)(b := w)\<rparr>) (D + 4 * pd) = Some (D + 4 * pd)"
        using translate_stable[OF idm b(1)] .
      moreover have "translate s1 (D + 4 * pd) =
          translate (s\<lparr>pmem := (pmem s)(b := w)\<rparr>) (D + 4 * pd)"
        using b(2) regs by (intro translate_same) simp_all
      ultimately show ?thesis by simp
    qed
  next
    case True
    then have ab: "pmem s (D + 4 * pd) AND 1 = 0" by (simp add: v_def)
    obtain k kp where k: "get_frames (kernel_mem_pool s) = (k, kp)"
      by (cases "get_frames (kernel_mem_pool s)")
    show ?thesis
    proof (cases "k = 0")
      case True
      have "fst (get_frames (kernel_mem_pool s)) = 0" using k True by simp
      from handle_fault_kernel_exhausted_aux[OF c _ _ this, of v r] ab idm ret
      have "pmem s1 = pmem s" by (auto simp: deref_def D_def pd_def v_def)
      then show ?thesis
        using idm translate_same[OF regs(1,3)] by simp
    next
      case False
      define N where "N = k * PAGE_SIZE"
      have ND: "N \<noteq> D" and wt: "walk_table s (D + 4 * pd) \<noteq> N"
        using fresh ab k by (simp_all add: D_def pd_def N_def)
      have Na: "aligned N" by (simp add: N_def aligned_frame)
      obtain e pp where e: "get_frames (process_mem_pool s) = (e, pp)"
        by (cases "get_frames (process_mem_pool s)")
      obtain s' where r1: "handle_fault r s = Returned () s'"
        and F: "\<forall>a. a \<noteq> D + 4 * pd \<and> (\<forall>j. j < 1024 \<longrightarrow> a \<noteq> N + 4 * of_nat j) \<longrightarrow>
                pmem s' a = pmem s a"
        using handle_fault_miss_result[OF rdy _ k False _ e, of r] ab ND
        unfolding D_def N_def pd_def by blast
      have "s' = s1" using r1 ret by simp
      with F have F1: "\<forall>a. a \<noteq> D + 4 * pd \<and> (\<forall>j. j < 1024 \<longrightarrow> a \<noteq> N + 4 * of_nat j) \<longrightarrow>
                pmem s1 a = pmem s a" by simp
      show ?thesis
        using walk_unchanged[OF idm on cr Da Na ND wt ab regs(1,3) F1] .
    qed
  qed
  show ?thesis
    using c on cr Da slot1 tr1 regs
    by (simp add: fault_ready_def D_def pd_def paging_on_def)
qed


lemma small_bits: "(d::word32) < 1024 \<Longrightarrow> bit d n \<Longrightarrow> n < 10"
proof -
  assume "d < 1024" "bit d n"
  then have "d < 2 ^ 10" by simp
  then have "d AND mask 10 = d" by (rule less_mask_eq)
  with \<open>bit d n\<close> have "bit (d AND mask 10) n" by simp
  then show ?thesis by (simp add: bit_simps)
qed

lemma low_frame_nonzero: "(d::word32) < 1024 \<Longrightarrow> d \<noteq> 0 \<Longrightarrow> d * PAGE_SIZE \<noteq> 0"
proof
  assume d: "d < 1024" "d \<noteq> 0" and z: "d * PAGE_SIZE = 0"
  have "bit (drop_bit 12 (push_bit 12 d)) n = bit d n" for n
    using small_bits[OF d(1), of n] by (auto simp: bit_simps)
  then have "drop_bit 12 (push_bit 12 d) = d"
    by (simp add: bit_eq_iff)
  with z d(2) show False by (simp add: page_mult)
qed

lemma low_frame_slot:
  assumes d: "(d::word32) < 1024" and x: "x AND 0x3FF = x"
  shows "d * PAGE_SIZE + 4 * x < 0x400000"
proof -
  let ?va = "d * PAGE_SIZE + 4 * x"
  have "?va = d * PAGE_SIZE + 4 * (x AND 0x3FF)" using x by simp
  also have "\<dots> = d * PAGE_SIZE OR push_bit 2 (x AND 0x3FF)"
    using entry_at_add[OF aligned_frame, of d x]
    unfolding entry_at_def page_base_aligned[OF aligned_frame] .
  finally have e: "?va = push_bit 12 d OR push_bit 2 (x AND mask 10)"
    by (simp only: page_mult m10)
  have "bit (?va AND mask 22) n = bit ?va n" for n
    unfolding e using small_bits[OF d, of "n - 12"] by (auto simp: bit_simps)
  then have "?va AND mask 22 = ?va"
    by (simp add: bit_eq_iff)
  moreover have "?va AND mask 22 < 2 ^ 22"
    by (rule and_mask_less') simp
  ultimately show ?thesis by simp
qed

lemma boot_fault_ready:
  assumes off: "\<not> paging_on s" and d: "get_frames (kernel_mem_pool s) = (d, kp1)"
    and t: "get_frames kp1 = (t, kp2)" "t \<noteq> 0"
    and dt: "t * PAGE_SIZE \<noteq> d * PAGE_SIZE" and d0: "d \<noteq> 0" and dl: "d < 1024"
  shows "\<exists>cpt s'. PageTable s = Returned cpt s' \<and>
           fault_ready ((enable_paging (load cpt s'))\<lparr>cr2 := c\<rparr>) cpt"
proof -
  define D where "D = d * PAGE_SIZE"
  define T where "T = t * PAGE_SIZE"
  define cpt where "cpt = \<lparr>page_directory = D\<rparr>"
  have Da: "aligned D" and Ta: "aligned T" by (simp_all add: D_def T_def aligned_frame)
  have Dn: "D \<noteq> 0" using low_frame_nonzero[OF dl d0] by (simp add: D_def)
  obtain s' where r: "PageTable s = Returned cpt s'"
    and slot: "pmem s' (D + 4 * 1023) = D OR 3"
    and p0: "pmem s' D = T OR 3"
    and tb: "\<forall>i. i < 1024 \<longrightarrow> pmem s' (T + 4 * of_nat i) = of_nat i * PAGE_SIZE OR 3"
    using PageTable_result[OF off d t] dt unfolding D_def T_def cpt_def by blast
  define s2 where "s2 = enable_paging (load cpt s')"
  have regs: "cr3 s2 = D" "pmem s2 = pmem s'" "current_page_table s2 = Some cpt"
    using load_enable_regs[of cpt s'] Dn by (simp_all add: s2_def cpt_def)
  have on: "paging_on s2" unfolding s2_def by (rule paging_on_enable)
  have p0': "pmem s2 D = T OR 3"
    and tb': "\<forall>i. i < 1024 \<longrightarrow> pmem s2 (T + 4 * of_nat i) = of_nat i * PAGE_SIZE OR 3"
    using p0 tb regs by simp_all
  have lt: "D + 4 * pd_index_of c < 0x400000"
    using low_frame_slot[OF dl, of "pd_index_of c"] by (simp add: D_def)
  have tr: "translate s2 (D + 4 * pd_index_of c) = Some (D + 4 * pd_index_of c)"
    using identity_translate[OF on regs(1) Da Ta p0' tb' lt] by simp
  have t2: "translate (s2\<lparr>cr2 := c\<rparr>) = translate s2"
    by (rule ext) (simp add: translate_def paging_on_def Let_def)
  have "fault_ready (s2\<lparr>cr2 := c\<rparr>) cpt"
    using on regs Da slot tr
    by (simp add: fault_ready_def t2 paging_on_def cpt_def)
  with r show ?thesis unfolding s2_def by blast
qed

section \<open>The claims\<close>

subsection \<open>C1\<close>

text \<open>
  C1.  A fault whose directory entry is absent, taken while the table is active and with
  the kernel pool handing out a frame other than the directory's own: the handler takes
  one frame from each pool and returns; the directory entry at the directory index holds
  the new table's address with flags 3 (present, writable); every entry of the new table
  but the one at the table index is zero; that one holds the process frame's address with
  flags 3; nothing else in memory has changed; and each of the 1024 addresses of the
  recursive window selected by the directory index, through which the code cleared and
  filled the table, resolves to the corresponding entry of the new table.
\<close>

theorem handle_fault_directory_miss:
  assumes "fault_ready s cpt"
    and "pmem s (page_directory cpt + 4 * pd_index_of (cr2 s)) AND 1 = 0"
    and "get_frames (kernel_mem_pool s) = (k, kp)" and "k \<noteq> 0"
    and "k * PAGE_SIZE \<noteq> page_directory cpt"
    and "get_frames (process_mem_pool s) = (e, pp)"
  shows "\<exists>s'. handle_fault r s = Returned () s' \<and>
           kernel_mem_pool s' = kp \<and> process_mem_pool s' = pp \<and>
           pmem s' (page_directory cpt + 4 * pd_index_of (cr2 s)) = k * PAGE_SIZE OR 3 \<and>
           (\<forall>j. j < 1024 \<and> of_nat j \<noteq> pt_index_of (cr2 s) \<longrightarrow>
                pmem s' (k * PAGE_SIZE + 4 * of_nat j) = 0) \<and>
           pmem s' (k * PAGE_SIZE + 4 * pt_index_of (cr2 s)) = PAGE_SIZE * e OR 3 \<and>
           (\<forall>a. a \<noteq> page_directory cpt + 4 * pd_index_of (cr2 s) \<and>
                (\<forall>j. j < 1024 \<longrightarrow> a \<noteq> k * PAGE_SIZE + 4 * of_nat j) \<longrightarrow>
                pmem s' a = pmem s a) \<and>
           (\<forall>j. j < 1024 \<longrightarrow>
                translate s' ((0xFFC00000 OR push_bit 12 (pd_index_of (cr2 s))) + 4 * of_nat j) =
                  Some (k * PAGE_SIZE + 4 * of_nat j))"
proof -
  define D where "D = page_directory cpt"
  define pd where "pd = pd_index_of (cr2 s)"
  from assms(1) have on: "paging_on s" and cr: "cr3 s = D" and Da: "aligned D"
    and self: "pmem s (D + 4 * 1023) = D OR 3"
    by (simp_all add: fault_ready_def D_def)
  have pdm: "pd AND 0x3FF = pd" by (simp add: pd_def)
  have N: "aligned (k * PAGE_SIZE)" by (rule aligned_frame)
  obtain s' where r: "handle_fault r s = Returned () s'"
    and regs: "cr0 s' = cr0 s" "cr3 s' = cr3 s"
    and pools: "kernel_mem_pool s' = kp" "process_mem_pool s' = pp"
    and A: "pmem s' (D + 4 * pd) = k * PAGE_SIZE OR 3"
    and B: "pmem s' (k * PAGE_SIZE + 4 * pt_index_of (cr2 s)) = PAGE_SIZE * e OR 3"
    and C: "\<forall>j. j < 1024 \<and> of_nat j \<noteq> pt_index_of (cr2 s) \<longrightarrow>
                pmem s' (k * PAGE_SIZE + 4 * of_nat j) = 0"
    and F: "\<forall>a. a \<noteq> D + 4 * pd \<and>
                (\<forall>j. j < 1024 \<longrightarrow> a \<noteq> k * PAGE_SIZE + 4 * of_nat j) \<longrightarrow>
                pmem s' a = pmem s a"
    using handle_fault_miss_result[OF assms, of r] unfolding D_def pd_def by blast
  have pd1023: "pd \<noteq> 1023"
    using assms(2) self flags_present[of D] by (auto simp: D_def pd_def)
  have s1: "D + 4 * 1023 \<noteq> D + 4 * pd"
    using slot_eq_iff[OF Da Da pdm, of 1023] pd1023 by simp
  have s2: "D + 4 * 1023 \<noteq> k * PAGE_SIZE + 4 * of_nat j" if "j < 1024" for j
    using slot_eq_iff[OF N Da of_nat_idx[OF that], of 1023] assms(5) by (auto simp: D_def)
  have self': "pmem s' (D + 4 * 1023) = D OR 3"
    using F s1 s2 self by simp
  have on': "paging_on s'" using on regs by (simp add: paging_on_def)
  have W: "translate s' ((0xFFC00000 OR push_bit 12 pd) + 4 * of_nat j) =
             Some (k * PAGE_SIZE + 4 * of_nat j)" if "j < 1024" for j
    using window_slot_translate[OF on' _ Da self' pdm A N that] regs cr by simp
  show ?thesis
    using r pools A B C F W unfolding D_def pd_def by blast
qed

theorem handle_fault_directory_miss_witness:
  "fault_ready demo_state \<lparr>page_directory = 0x1000\<rparr> \<and>
   (\<exists>s'. handle_fault () demo_state = Returned () s' \<and>
      kernel_mem_pool s' = [] \<and> process_mem_pool s' = [] \<and>
      pmem s' 0x1004 = 0x3003 \<and> pmem s' 0x3000 = 0x400003 \<and> pmem s' 0x3004 = 0 \<and>
      pmem s' 0x1000 = 0x2003 \<and> translate s' 0xFFC01004 = Some 0x3004)"
proof -
  let ?cpt = "\<lparr>page_directory = 0x1000\<rparr>"
  have pd: "pd_index_of (cr2 demo_state) = 1"
    by (simp add: demo_state_def pd_index_of_def)
  have pt: "pt_index_of (cr2 demo_state) = 0"
    by (simp add: demo_state_def pt_index_of_def)
  have rdy: "fault_ready demo_state ?cpt"
    by (simp add: fault_ready_def pd aligned_def)
       (simp add: demo_state_def paging_on_def demo_mem_def translate_def entry_at_def
          page_base_def Let_def)
  have ab: "pmem demo_state (page_directory ?cpt + 4 * pd_index_of (cr2 demo_state)) AND 1 = 0"
    by (simp add: pd) (simp add: demo_state_def demo_mem_def)
  have k: "get_frames (kernel_mem_pool demo_state) = (3, [])" "(3::word32) \<noteq> 0"
    "3 * PAGE_SIZE \<noteq> page_directory ?cpt"
    by (simp_all add: demo_state_def PAGE_SIZE_def)
  have e: "get_frames (process_mem_pool demo_state) = (1024, [])"
    by (simp add: demo_state_def)
  obtain s' where r: "handle_fault () demo_state = Returned () s'"
    and pools: "kernel_mem_pool s' = []" "process_mem_pool s' = []"
    and A: "pmem s' (page_directory ?cpt + 4 * pd_index_of (cr2 demo_state)) = 3 * PAGE_SIZE OR 3"
    and C: "\<forall>j. j < 1024 \<and> of_nat j \<noteq> pt_index_of (cr2 demo_state) \<longrightarrow>
                pmem s' (3 * PAGE_SIZE + 4 * of_nat j) = 0"
    and B: "pmem s' (3 * PAGE_SIZE + 4 * pt_index_of (cr2 demo_state)) = PAGE_SIZE * 1024 OR 3"
    and F: "\<forall>a. a \<noteq> page_directory ?cpt + 4 * pd_index_of (cr2 demo_state) \<and>
                (\<forall>j. j < 1024 \<longrightarrow> a \<noteq> 3 * PAGE_SIZE + 4 * of_nat j) \<longrightarrow>
                pmem s' a = pmem demo_state a"
    and W: "\<forall>j. j < 1024 \<longrightarrow>
                translate s' ((0xFFC00000 OR push_bit 12 (pd_index_of (cr2 demo_state))) + 4 * of_nat j) =
                  Some (3 * PAGE_SIZE + 4 * of_nat j)"
    using handle_fault_directory_miss[where r="()", OF rdy ab k e] by blast
  have 1: "pmem s' 0x1004 = 0x3003" using A by (simp add: pd PAGE_SIZE_def)
  have 2: "pmem s' 0x3000 = 0x400003" using B by (simp add: pt PAGE_SIZE_def)
  have 3: "pmem s' 0x3004 = 0" using C[THEN spec, of 1] by (simp add: pt PAGE_SIZE_def)
  have 5: "translate s' 0xFFC01004 = Some 0x3004"
    using W[THEN spec, of 1] by (simp add: pd PAGE_SIZE_def)
  have "(0x1000::word32) \<noteq> 0x3000 + 4 * of_nat j" if "j < 1024" for j
    using slot_eq_iff[of "0x3000" "0x1000" "of_nat j" 0] of_nat_idx[OF that]
    by (simp add: aligned_def)
  then have 4: "pmem s' 0x1000 = 0x2003"
    using F[THEN spec, of "0x1000"] by (simp add: pd PAGE_SIZE_def) (simp add: demo_state_def demo_mem_def)
  show ?thesis using rdy r pools 1 2 3 4 5 by blast
qed

subsection \<open>C2\<close>

text \<open>
  C2.  Construction with paging off, the pool handing out two different frames, the
  directory's not frame 0: entry \<open>i\<close> of the first table is \<open>i * PAGE_SIZE\<close> with flags 3,
  for every \<open>i\<close> below 1024; directory slot 0 is the table's address with flags 3; and once
  the table is loaded and paging enabled every address below 4 MiB translates to itself,
  through a directory entry and a table entry that both carry the present and writable
  flags.
\<close>

theorem PageTable_identity_map:
  assumes "\<not> paging_on s" and "get_frames (kernel_mem_pool s) = (d, kp1)"
    and "get_frames kp1 = (t, kp2)" and "t \<noteq> 0"
    and "t * PAGE_SIZE \<noteq> d * PAGE_SIZE" and "d * PAGE_SIZE \<noteq> 0"
  shows "\<exists>cpt s'. PageTable s = Returned cpt s' \<and> page_directory cpt = d * PAGE_SIZE \<and>
           (\<forall>i. i < 1024 \<longrightarrow>
                pmem s' (t * PAGE_SIZE + 4 * of_nat i) = of_nat i * PAGE_SIZE OR 3) \<and>
           pmem s' (page_directory cpt + 4 * 0) = t * PAGE_SIZE OR 3 \<and>
           (\<forall>va. va < 0x400000 \<longrightarrow>
                translate (enable_paging (load cpt s')) va = Some va \<and>
                pmem s' (entry_at (page_directory cpt) (drop_bit 22 va)) AND 3 = 3 \<and>
                pmem s' (entry_at (pmem s' (entry_at (page_directory cpt) (drop_bit 22 va)))
                           (drop_bit 12 va)) AND 3 = 3)"
proof -
  define D where "D = d * PAGE_SIZE"
  define T where "T = t * PAGE_SIZE"
  define cpt where "cpt = \<lparr>page_directory = D\<rparr>"
  have Da: "aligned D" and Ta: "aligned T" by (simp_all add: D_def T_def aligned_frame)
  obtain s' where r: "PageTable s = Returned cpt s'"
    and d0: "pmem s' D = T OR 3"
    and tb: "\<forall>i. i < 1024 \<longrightarrow> pmem s' (T + 4 * of_nat i) = of_nat i * PAGE_SIZE OR 3"
    using PageTable_result[OF assms(1-4)] assms(5) unfolding D_def T_def cpt_def by blast
  define s2 where "s2 = enable_paging (load cpt s')"
  have D0: "page_directory cpt \<noteq> 0" using assms(6) by (simp add: cpt_def D_def)
  have regs: "cr3 s2 = D" "pmem s2 = pmem s'"
    using load_enable_regs[OF D0, of s'] by (simp_all add: s2_def cpt_def)
  have on: "paging_on s2" unfolding s2_def by (rule paging_on_enable)
  have d0': "pmem s2 D = T OR 3" and tb': "\<forall>i. i < 1024 \<longrightarrow> pmem s2 (T + 4 * of_nat i) = of_nat i * PAGE_SIZE OR 3"
    using d0 tb regs by simp_all
  have W: "translate s2 va = Some va \<and>
         pmem s' (entry_at D (drop_bit 22 va)) AND 3 = 3 \<and>
         pmem s' (entry_at (pmem s' (entry_at D (drop_bit 22 va))) (drop_bit 12 va)) AND 3 = 3"
    if "va < 0x400000" for va
    using identity_translate[OF on regs(1) Da Ta d0' tb' that] regs by simp
  have pd: "page_directory cpt = D" by (simp add: cpt_def)
  show ?thesis
    unfolding D_def[symmetric] T_def[symmetric]
    by (intro exI[of _ cpt] exI[of _ s'] conjI allI impI)
       (use r pd d0 tb W in \<open>auto simp: s2_def\<close>)
qed

theorem PageTable_identity_map_witness:
  "\<not> paging_on boot_state \<and>
   (\<exists>cpt s'. PageTable boot_state = Returned cpt s' \<and> page_directory cpt = 0x201000 \<and>
      pmem s' 0x202004 = 0x1003 \<and> pmem s' 0x201000 = 0x202003 \<and>
      translate (enable_paging (load cpt s')) 0x1234 = Some 0x1234)"
proof -
  have off: "\<not> paging_on boot_state" by (simp add: paging_on_def boot_state_def)
  have g: "get_frames (kernel_mem_pool boot_state) = (513, [514, 515])"
    "get_frames [514, 515] = (514::word32, [515])" "(514::word32) \<noteq> 0"
    "514 * PAGE_SIZE \<noteq> 513 * PAGE_SIZE" "513 * PAGE_SIZE \<noteq> 0"
    by (simp_all add: boot_state_def PAGE_SIZE_def)
  obtain cpt s' where r: "PageTable boot_state = Returned cpt s'"
    and pd: "page_directory cpt = 513 * PAGE_SIZE"
    and tb: "\<forall>i. i < 1024 \<longrightarrow>
                pmem s' (514 * PAGE_SIZE + 4 * of_nat i) = of_nat i * PAGE_SIZE OR 3"
    and d0: "pmem s' (page_directory cpt + 4 * 0) = 514 * PAGE_SIZE OR 3"
    and tr: "\<forall>va. va < 0x400000 \<longrightarrow>
                translate (enable_paging (load cpt s')) va = Some va \<and>
                pmem s' (entry_at (page_directory cpt) (drop_bit 22 va)) AND 3 = 3 \<and>
                pmem s' (entry_at (pmem s' (entry_at (page_directory cpt) (drop_bit 22 va)))
                           (drop_bit 12 va)) AND 3 = 3"
    using PageTable_identity_map[OF off g] by blast
  have 1: "page_directory cpt = 0x201000" using pd by (simp add: PAGE_SIZE_def)
  have 2: "pmem s' 0x202004 = 0x1003" using tb[THEN spec, of 1] by (simp add: PAGE_SIZE_def)
  have 3: "pmem s' 0x201000 = 0x202003" using d0 1 by (simp add: PAGE_SIZE_def)
  have 4: "translate (enable_paging (load cpt s')) 0x1234 = Some 0x1234"
    using tr[THEN spec, of "0x1234"] by simp
  show ?thesis using off r 1 2 3 4 by blast
qed

subsection \<open>C3\<close>

text \<open>
  C3.  When construction runs with paging off and the first table's frame is obtained,
  the last directory slot holds the directory's own address with flags 3.  Whenever the
  handler runs for the active table (paging on, recursive entry in place, directory
  entry of the faulting address reachable at its physical address), then whatever the
  faulting address and whatever the two pools answer, the slot holds the same value when
  the handler stops, be it by returning or at a nested fault.  And when the handler
  returns, the table is again ready for a fault at any address \<open>c\<close>, provided that a
  frame the kernel pool handed out for a new table was neither the directory's nor that
  of the table through which the directory is mapped: the slot stays as it is from one
  fault to the next.
\<close>

theorem recursive_slot_stable:
  "(\<not> paging_on s \<and> get_frames (kernel_mem_pool s) = (d, kp1) \<and>
      get_frames kp1 = (t, kp2) \<and> t \<noteq> 0 \<longrightarrow>
      (\<exists>cpt s'. PageTable s = Returned cpt s' \<and>
         pmem s' (page_directory cpt + 4 * 1023) = page_directory cpt OR 3)) \<and>
   (fault_ready s0 cpt0 \<longrightarrow>
      pmem (final (handle_fault r s0)) (page_directory cpt0 + 4 * 1023) =
        pmem s0 (page_directory cpt0 + 4 * 1023) \<and>
      pmem (final (handle_fault r s0)) (page_directory cpt0 + 4 * 1023) =
        page_directory cpt0 OR 3) \<and>
   (fault_ready s0 cpt0 \<and> handle_fault r s0 = Returned () s1 \<and>
      (pmem s0 (page_directory cpt0 + 4 * pd_index_of (cr2 s0)) AND 1 = 0 \<longrightarrow>
        fst (get_frames (kernel_mem_pool s0)) * PAGE_SIZE \<noteq> page_directory cpt0 \<and>
        walk_table s0 (page_directory cpt0 + 4 * pd_index_of (cr2 s0)) \<noteq>
          fst (get_frames (kernel_mem_pool s0)) * PAGE_SIZE) \<longrightarrow>
      fault_ready (s1\<lparr>cr2 := c\<rparr>) cpt0)"
proof -
  have 1: "\<exists>cpt s'. PageTable s = Returned cpt s' \<and>
         pmem s' (page_directory cpt + 4 * 1023) = page_directory cpt OR 3"
    if "\<not> paging_on s" "get_frames (kernel_mem_pool s) = (d, kp1)"
      "get_frames kp1 = (t, kp2)" "t \<noteq> 0"
    using PageTable_result[OF that] by (auto intro!: exI[of _ "\<lparr>page_directory = d * PAGE_SIZE\<rparr>"])
  have 2: "pmem (final (handle_fault r s0)) (page_directory cpt0 + 4 * 1023) =
        page_directory cpt0 OR 3" if "fault_ready s0 cpt0"
    using handle_fault_keeps_self[OF that] .
  have 3: "pmem s0 (page_directory cpt0 + 4 * 1023) = page_directory cpt0 OR 3"
    if "fault_ready s0 cpt0"
    using that by (simp add: fault_ready_def)
  have 4: "fault_ready (s1\<lparr>cr2 := c\<rparr>) cpt0"
    if "fault_ready s0 cpt0" "handle_fault r s0 = Returned () s1"
      "pmem s0 (page_directory cpt0 + 4 * pd_index_of (cr2 s0)) AND 1 = 0 \<longrightarrow>
        fst (get_frames (kernel_mem_pool s0)) * PAGE_SIZE \<noteq> page_directory cpt0 \<and>
        walk_table s0 (page_directory cpt0 + 4 * pd_index_of (cr2 s0)) \<noteq>
          fst (get_frames (kernel_mem_pool s0)) * PAGE_SIZE"
    using fault_ready_any_address[OF fault_ready_kept[OF that]] .
  show ?thesis
  proof (intro conjI impI)
    assume "\<not> paging_on s \<and> get_frames (kernel_mem_pool s) = (d, kp1) \<and>
      get_frames kp1 = (t, kp2) \<and> t \<noteq> 0"
    then show "\<exists>cpt s'. PageTable s = Returned cpt s' \<and>
         pmem s' (page_directory cpt + 4 * 1023) = page_directory cpt OR 3"
      using 1 by blast
  next
    assume "fault_ready s0 cpt0"
    then show "pmem (final (handle_fault r s0)) (page_directory cpt0 + 4 * 1023) =
        pmem s0 (page_directory cpt0 + 4 * 1023)"
      using 2 3 by simp
  next
    assume "fault_ready s0 cpt0"
    then show "pmem (final (handle_fault r s0)) (page_directory cpt0 + 4 * 1023) =
        page_directory cpt0 OR 3"
      using 2 by simp
  next
    assume h: "fault_ready s0 cpt0 \<and> handle_fault r s0 = Returned () s1 \<and>
      (pmem s0 (page_directory cpt0 + 4 * pd_index_of (cr2 s0)) AND 1 = 0 \<longrightarrow>
        fst (get_frames (kernel_mem_pool s0)) * PAGE_SIZE \<noteq> page_directory cpt0 \<and>
        walk_table s0 (page_directory cpt0 + 4 * pd_index_of (cr2 s0)) \<noteq>
          fst (get_frames (kernel_mem_pool s0)) * PAGE_SIZE)"
    show "fault_ready (s1\<lparr>cr2 := c\<rparr>) cpt0"
      by (rule 4) (use h in simp_all)
  qed
qed

theorem recursive_slot_stable_witness:
  "\<not> paging_on boot_state \<and>
   (\<exists>cpt s'. PageTable boot_state = Returned cpt s' \<and>
         pmem s' (page_directory cpt + 4 * 1023) = page_directory cpt OR 3) \<and>
   fault_ready demo_state \<lparr>page_directory = 0x1000\<rparr> \<and>
   pmem (final (handle_fault () demo_state)) 0x1FFC = 0x1003 \<and>
   (\<exists>s1. handle_fault () demo_state = Returned () s1 \<and>
      fault_ready (s1\<lparr>cr2 := 0x5000\<rparr>) \<lparr>page_directory = 0x1000\<rparr>)"
proof -
  let ?cpt = "\<lparr>page_directory = 0x1000\<rparr>"
  note ev = demo_state_def paging_on_def demo_mem_def translate_def entry_at_def
          page_base_def pd_index_of_def pt_index_of_def walk_table_def PAGE_SIZE_def Let_def
  have off: "\<not> paging_on boot_state" by (simp add: paging_on_def boot_state_def)
  have g: "get_frames (kernel_mem_pool boot_state) = (513, [514, 515])"
    "get_frames [514, 515] = (514::word32, [515])" "(514::word32) \<noteq> 0"
    by (simp_all add: boot_state_def)
  have rdy: "fault_ready demo_state ?cpt"
    by (simp add: fault_ready_def aligned_def) (simp add: ev)
  have m: "pmem demo_state 0x1FFC = 0x1003"
    by (simp add: demo_state_def demo_mem_def)
  have ab: "pmem demo_state (page_directory ?cpt + 4 * pd_index_of (cr2 demo_state)) AND 1 = 0"
    by (simp add: ev)
  have k: "get_frames (kernel_mem_pool demo_state) = (3, [])" "(3::word32) \<noteq> 0"
    "3 * PAGE_SIZE \<noteq> page_directory ?cpt"
    by (simp_all add: demo_state_def PAGE_SIZE_def)
  have e: "get_frames (process_mem_pool demo_state) = (1024, [])"
    by (simp add: demo_state_def)
  obtain s1 where r1: "handle_fault () demo_state = Returned () s1"
    using handle_fault_miss_result[OF rdy ab k e, of "()"] by blast
  have fresh: "pmem demo_state (page_directory ?cpt + 4 * pd_index_of (cr2 demo_state)) AND 1 = 0 \<longrightarrow>
        fst (get_frames (kernel_mem_pool demo_state)) * PAGE_SIZE \<noteq> page_directory ?cpt \<and>
        walk_table demo_state (page_directory ?cpt + 4 * pd_index_of (cr2 demo_state)) \<noteq>
          fst (get_frames (kernel_mem_pool demo_state)) * PAGE_SIZE"
    by (simp add: ev)
  note T = recursive_slot_stable[of boot_state 513 "[514, 515]" 514 "[515]" demo_state
      ?cpt "()" s1 "0x5000"]
  have a: "\<exists>cpt s'. PageTable boot_state = Returned cpt s' \<and>
         pmem s' (page_directory cpt + 4 * 1023) = page_directory cpt OR 3"
    using T off g by blast
  have b: "pmem (final (handle_fault () demo_state)) 0x1FFC = 0x1003"
    using T rdy m by simp
  have c: "fault_ready (s1\<lparr>cr2 := 0x5000\<rparr>) ?cpt"
    using T rdy r1 fresh by blast
  show ?thesis using off a rdy b r1 c by blast
qed

subsection \<open>C4\<close>

text \<open>
  C4.  The handler takes the faulting address from the fault-address register \<open>cr2\<close> and
  not from the saved context: its whole outcome is the same for any two contexts, and
  with a table active its trace starts with the value of \<open>cr2\<close>, the directory index and
  the table index.  Bit \<open>n\<close> of the directory index is bit \<open>n + 22\<close> of the address and bit
  \<open>n\<close> of the table index is bit \<open>n + 12\<close>, for \<open>n\<close> below 10: the indices are bits 22..31
  and bits 12..21.
\<close>

theorem handle_fault_decode:
  "handle_fault r s = handle_fault r' s \<and>
   (\<forall>n. bit (pd_index_of a) n \<longleftrightarrow> n < 10 \<and> bit a (n + 22)) \<and>
   (\<forall>n. bit (pt_index_of a) n \<longleftrightarrow> n < 10 \<and> bit a (n + 12)) \<and>
   (current_page_table s \<noteq> None \<longrightarrow>
     (\<exists>ys. console (final (handle_fault r s)) =
        console s @ [Puts ''Page fault at address: '', Putui (cr2 s),
                     Puts ''PDE: '', Putui (pd_index_of (cr2 s)),
                     Puts ''PTE: '', Putui (pt_index_of (cr2 s)), Puts ''\<newline>''] @ ys))"
proof -
  have 1: "handle_fault r s = handle_fault r' s"
    by (simp add: handle_fault_def)
  have 2: "\<exists>ys. console (final (handle_fault r s)) =
        console s @ [Puts ''Page fault at address: '', Putui (cr2 s),
                     Puts ''PDE: '', Putui (pd_index_of (cr2 s)),
                     Puts ''PTE: '', Putui (pt_index_of (cr2 s)), Puts ''\<newline>''] @ ys"
    if "current_page_table s = Some cpt" for cpt
    using handle_fault_console[OF that, of r] by (simp add: console_print_fault)
  show ?thesis
    using 1 2 bit_pd_index_of bit_pt_index_of by auto
qed

theorem handle_fault_decode_witness:
  "current_page_table demo_state \<noteq> None \<and>
   pd_index_of (cr2 demo_state) = 1 \<and> pt_index_of (cr2 demo_state) = 0 \<and>
   (\<exists>ys. console (final (handle_fault () demo_state)) =
      [Puts ''Page fault at address: '', Putui 0x00400000, Puts ''PDE: '', Putui 1,
       Puts ''PTE: '', Putui 0, Puts ''\<newline>''] @ ys)"
proof -
  have t: "current_page_table demo_state \<noteq> None"
    by (simp add: demo_state_def)
  have pd: "pd_index_of (cr2 demo_state) = 1"
    by (simp add: demo_state_def pd_index_of_def)
  have pt: "pt_index_of (cr2 demo_state) = 0"
    by (simp add: demo_state_def pt_index_of_def)
  have c: "console demo_state = []" "cr2 demo_state = 0x00400000"
    by (simp_all add: demo_state_def)
  from handle_fault_decode[of "()" demo_state "()" 0] t pd pt c show ?thesis
    by auto
qed

subsection \<open>C5\<close>

text \<open>
  C5, as amended.  With no table active the handler prints its diagnostic and returns to
  the trap dispatcher at once: it reads no register, asks no pool for a frame and writes
  no memory.  It does not stop the machine.
\<close>

theorem handle_fault_no_table:
  "current_page_table s = None \<Longrightarrow>
   handle_fault r s = Returned () (puts ''Error: No current page table loaded\<newline>'' s)"
  by (simp add: handle_fault_def)

theorem handle_fault_no_table_witness:
  "current_page_table boot_state = None \<and>
   handle_fault () boot_state =
     Returned () (puts ''Error: No current page table loaded\<newline>'' boot_state)"
proof -
  have n: "current_page_table boot_state = None"
    by (simp add: boot_state_def)
  from handle_fault_no_table[OF n, of "()"] n show ?thesis
    by simp
qed

text \<open>
  C5, as stated, fails: at the boot state, where no table is active, the handler's
  outcome is a normal return to its caller, with the state unchanged but for the
  diagnostic; execution goes on.
\<close>

theorem handle_fault_no_table_returns:
  "handle_fault () boot_state =
     Returned ()
       (boot_state\<lparr>console := [Puts ''Error: No current page table loaded\<newline>'']\<rparr>)"
  by (simp add: handle_fault_def boot_state_def puts_def)

subsection \<open>C6\<close>

text \<open>
  C6 does not hold of the constructor: it never tests the frame number answered for the
  directory.  At a state whose kernel pool is exhausted it takes the null address as its
  directory and stores zeros through it (the word at \<open>0x10\<close> goes from 7 to 0) before the
  test on the second request stops it; and were the second request to succeed after a
  failed first one, it would complete a directory at address 0 and report success.
\<close>

theorem PageTable_null_directory:
  "pmem exhausted_state 0x10 = 7 \<and>
   (case PageTable exhausted_state of
      Returned cpt s' \<Rightarrow>
        page_directory cpt = 0 \<and> pmem s' 0x10 = 0 \<and>
        console s' = [Puts ''Failed to allocate first page table\<newline>'']
    | Faulted va s' \<Rightarrow> False) \<and>
   (case PageTable (exhausted_state\<lparr>kernel_mem_pool := [0, 514]\<rparr>) of
      Returned cpt s' \<Rightarrow>
        page_directory cpt = 0 \<and> pmem s' 0 = 0x202003 \<and> pmem s' 0xFFC = 3 \<and>
        console s' = [Puts ''Page directory with 4MB direct-mapped allocated\<newline>'']
    | Faulted va s' \<Rightarrow> False)"
proof -
  have off: "\<not> paging_on exhausted_state"
    "\<not> paging_on (exhausted_state\<lparr>kernel_mem_pool := [0, 514]\<rparr>)"
    by (simp_all add: paging_on_def exhausted_state_def)
  have c: "console exhausted_state = []" by (simp add: exhausted_state_def)
  have g: "get_frames (kernel_mem_pool exhausted_state) = (0, [])"
    "get_frames [] = (0::word32, [])"
    by (simp_all add: exhausted_state_def)
  obtain s' where r: "PageTable exhausted_state = Returned \<lparr>page_directory = 0 * PAGE_SIZE\<rparr> s'"
    and co: "console s' = console exhausted_state @ [Puts ''Failed to allocate first page table\<newline>'']"
    and z: "\<forall>j. j < 1024 \<longrightarrow> pmem s' (0 * PAGE_SIZE + 4 * of_nat j) = 0"
    using PageTable_no_table_frame[OF off(1) g] by blast
  have 1: "pmem s' 0x10 = 0" using z[THEN spec, of 4] by simp
  have g2: "get_frames (kernel_mem_pool (exhausted_state\<lparr>kernel_mem_pool := [0, 514]\<rparr>)) = (0, [514])"
    "get_frames [514] = (514::word32, [])" "(514::word32) \<noteq> 0"
    by simp_all
  obtain s2 where r2: "PageTable (exhausted_state\<lparr>kernel_mem_pool := [0, 514]\<rparr>) =
        Returned \<lparr>page_directory = 0 * PAGE_SIZE\<rparr> s2"
    and co2: "console s2 = console (exhausted_state\<lparr>kernel_mem_pool := [0, 514]\<rparr>) @
        [Puts ''Page directory with 4MB direct-mapped allocated\<newline>'']"
    and A: "pmem s2 (0 * PAGE_SIZE + 4 * 1023) = 0 * PAGE_SIZE OR 3"
    and B: "pmem s2 (0 * PAGE_SIZE) = 514 * PAGE_SIZE OR 3"
    using PageTable_result[OF off(2) g2] by blast
  have m: "pmem exhausted_state 0x10 = 7" by (simp add: exhausted_state_def)
  show ?thesis
    using m r co 1 r2 co2 A B c by (simp add: PAGE_SIZE_def)
qed

subsection \<open>C7\<close>

text \<open>
  C7.  On a directory miss with the kernel pool reporting failure, the handler returns
  after its diagnostic: physical memory, hence the directory entry at the faulting index
  and every other paging structure, is exactly as before, as are the registers, the
  active table and the process pool.
\<close>

theorem handle_fault_kernel_exhausted:
  assumes "current_page_table s = Some cpt"
    and "deref s (page_directory cpt + 4 * pd_index_of (cr2 s)) = Some e"
    and "e AND 1 = 0"
    and "fst (get_frames (kernel_mem_pool s)) = 0"
  shows "\<exists>s'. handle_fault r s = Returned () s' \<and> pmem s' = pmem s \<and> cr0 s' = cr0 s \<and>
           cr3 s' = cr3 s \<and> current_page_table s' = current_page_table s \<and>
           process_mem_pool s' = process_mem_pool s \<and>
           last (console s') = Puts ''Failed to allocate new page table\<newline>''"
  using assms
  by (auto simp: handle_fault_def Let_def directory_miss_def print_fault_def puts_def
        putui_def split: prod.splits)

theorem handle_fault_kernel_exhausted_witness:
  "\<exists>s'. handle_fault () (demo_state\<lparr>kernel_mem_pool := []\<rparr>) = Returned () s' \<and>
      pmem s' = demo_mem \<and> process_mem_pool s' = [1024] \<and>
      last (console s') = Puts ''Failed to allocate new page table\<newline>''"
proof -
  let ?s = "demo_state\<lparr>kernel_mem_pool := []\<rparr>"
  have 1: "current_page_table ?s = Some \<lparr>page_directory = 0x1000\<rparr>"
    by (simp add: demo_state_def)
  have 2: "deref ?s (page_directory \<lparr>page_directory = 0x1000\<rparr> + 4 * pd_index_of (cr2 ?s))
             = Some 0"
    by (simp add: demo_state_def pd_index_of_def deref_def translate_def paging_on_def
          demo_mem_def entry_at_def page_base_def Let_def)
  have 3: "(0::word32) AND 1 = 0"
    by simp
  have 4: "fst (get_frames (kernel_mem_pool ?s)) = 0"
    by simp
  from handle_fault_kernel_exhausted[OF 1 2 3 4, of "()"] show ?thesis
    by (auto simp: demo_state_def)
qed

subsection \<open>C8\<close>

text \<open>
  C8 does not hold of the handler.  On a directory miss it fills the new table through
  the recursive window (line 157); on the next run it reads that table through its
  physical address (line 182).  When the frame that the kernel pool hands out is not
  mapped onto itself, the first run returns having reported the fault handled, with the
  directory entry and the table entry installed, and the second run on the same address
  is stopped by a page fault of its own on the table's physical address, before it has
  read the table entry.  This happens on the small running system when the pool hands
  out frame 9, and on the system that the constructor, \<open>load\<close> and \<open>enable_paging\<close> bring
  up when the pool hands out frame 2048 for a fault at \<open>0x00400000\<close>, the first address
  beyond the identity-mapped region.
\<close>

theorem retry_stopped_by_table_read:
  "fault_ready far_table_state \<lparr>page_directory = 0x1000\<rparr> \<and>
   pmem far_table_state 0x1004 = 0 \<and>
   (\<exists>s1. handle_fault () far_table_state = Returned () s1 \<and>
      last (console s1) = Puts ''Page fault handled\<newline> '' \<and>
      cr2 s1 = cr2 far_table_state \<and>
      pmem s1 0x1004 = 0x9003 \<and> pmem s1 0x9000 = 0x400003 \<and>
      (\<exists>s2. handle_fault () s1 = Faulted 0x9000 s2)) \<and>
   \<not> quiet_retry () far_table_state \<lparr>page_directory = 0x1000\<rparr> \<and>
   (case PageTable far_pool_state of
      Returned cpt s' \<Rightarrow>
        page_directory cpt = 0x201000 \<and> pmem s' 0x201004 = 2 \<and>
        fault_ready ((enable_paging (load cpt s'))\<lparr>cr2 := 0x400000\<rparr>) cpt \<and>
        (\<exists>s1. handle_fault () ((enable_paging (load cpt s'))\<lparr>cr2 := 0x400000\<rparr>) =
                Returned () s1 \<and>
           last (console s1) = Puts ''Page fault handled\<newline> '' \<and> cr2 s1 = 0x400000 \<and>
           pmem s1 0x201004 = 0x800003 \<and> pmem s1 0x800000 = 0x400003 \<and>
           (\<exists>s2. handle_fault () s1 = Faulted 0x800000 s2)) \<and>
        \<not> quiet_retry () ((enable_paging (load cpt s'))\<lparr>cr2 := 0x400000\<rparr>) cpt
    | Faulted va s' \<Rightarrow> False)"
proof -
  have small:
    "fault_ready far_table_state \<lparr>page_directory = 0x1000\<rparr> \<and>
     pmem far_table_state 0x1004 = 0 \<and>
     (\<exists>s1. handle_fault () far_table_state = Returned () s1 \<and>
        last (console s1) = Puts ''Page fault handled\<newline> '' \<and>
        cr2 s1 = cr2 far_table_state \<and>
        pmem s1 0x1004 = 0x9003 \<and> pmem s1 0x9000 = 0x400003 \<and>
        (\<exists>s2. handle_fault () s1 = Faulted 0x9000 s2)) \<and>
     \<not> quiet_retry () far_table_state \<lparr>page_directory = 0x1000\<rparr>"
  proof -
    let ?cpt = "\<lparr>page_directory = 0x1000\<rparr>"
    let ?s = far_table_state
    note ev = far_table_state_def demo_state_def paging_on_def demo_mem_def translate_def
      entry_at_def page_base_def pd_index_of_def pt_index_of_def PAGE_SIZE_def Let_def
    have pd: "pd_index_of (cr2 ?s) = 1" by (simp add: ev)
    have pt: "pt_index_of (cr2 ?s) = 0" by (simp add: ev)
    have rdy: "fault_ready ?s ?cpt"
      by (simp add: fault_ready_def pd aligned_def) (simp add: ev)
    have m0: "pmem ?s 0x1004 = 0" by (simp add: ev)
    have ab: "pmem ?s (page_directory ?cpt + 4 * pd_index_of (cr2 ?s)) AND 1 = 0"
      by (simp add: pd) (simp add: ev)
    have k: "get_frames (kernel_mem_pool ?s) = (9, [])" "(9::word32) \<noteq> 0"
      "9 * PAGE_SIZE \<noteq> page_directory ?cpt"
      by (simp_all add: ev)
    have e: "get_frames (process_mem_pool ?s) = (1024, [])" by (simp add: ev)
    obtain s1 where r: "handle_fault () ?s = Returned () s1"
      and regs: "cr0 s1 = cr0 ?s" "cr2 s1 = cr2 ?s" "cr3 s1 = cr3 ?s"
        "current_page_table s1 = current_page_table ?s"
      and l: "last (console s1) = Puts ''Page fault handled\<newline> ''"
      and A: "pmem s1 (page_directory ?cpt + 4 * pd_index_of (cr2 ?s)) = 9 * PAGE_SIZE OR 3"
      and B: "pmem s1 (9 * PAGE_SIZE + 4 * pt_index_of (cr2 ?s)) = PAGE_SIZE * 1024 OR 3"
      and F: "\<forall>a. a \<noteq> page_directory ?cpt + 4 * pd_index_of (cr2 ?s) \<and>
                  (\<forall>j. j < 1024 \<longrightarrow> a \<noteq> 9 * PAGE_SIZE + 4 * of_nat j) \<longrightarrow>
                  pmem s1 a = pmem ?s a"
      using handle_fault_miss_result[where r="()", OF rdy ab k e] by blast
    have 1: "pmem s1 0x1004 = 0x9003" using A by (simp add: pd PAGE_SIZE_def)
    have 2: "pmem s1 0x9000 = 0x400003" using B by (simp add: pt PAGE_SIZE_def)
    have keep: "pmem s1 a = pmem ?s a" if "a \<noteq> 0x1004" "page_base a \<noteq> 0x9000" for a
    proof -
      have "a \<noteq> 0x9000 + 4 * of_nat j" if "j < 1024" for j
        using other_page[of "0x9000" a j] that \<open>page_base a \<noteq> 0x9000\<close>
        by (simp add: aligned_def)
      then show ?thesis using F[THEN spec, of a] that(1) by (simp add: pd PAGE_SIZE_def)
    qed
    have d0: "pmem s1 0x1000 = 0x2003" using keep[of "0x1000"] by (simp add: ev)
    have t1: "pmem s1 0x2004 = 0x1003" using keep[of "0x2004"] by (simp add: ev)
    have t9: "pmem s1 0x2024 = 0" using keep[of "0x2024"] by (simp add: ev)
    have rg: "cr0 s1 = 0x80000000" "cr3 s1 = 0x1000" "cr2 s1 = 0x400000"
      "current_page_table s1 = Some ?cpt"
      using regs by (simp_all add: ev)
    have tr1: "translate s1 (page_directory ?cpt + 4 * pd_index_of (cr2 s1)) = Some 0x1004"
      using rg d0 t1
      by (simp add: translate_def paging_on_def entry_at_def page_base_def pd_index_of_def Let_def)
    have pr: "pmem s1 0x1004 AND 1 \<noteq> 0" using 1 by simp
    have tr2: "translate s1 (page_base (pmem s1 0x1004) + 4 * pt_index_of (cr2 s1)) = None"
      using rg d0 t9 1
      by (simp add: translate_def paging_on_def entry_at_def page_base_def pt_index_of_def Let_def)
    obtain s2 where f: "handle_fault () s1 =
        Faulted (page_base (pmem s1 0x1004) + 4 * pt_index_of (cr2 s1)) s2"
      using hit_table_unreachable[where r="()", OF rg(4) tr1 pr tr2] by blast
    have f': "handle_fault () s1 = Faulted 0x9000 s2"
      using f 1 rg by (simp add: page_base_def pt_index_of_def)
    have nq: "\<not> quiet_retry () ?s ?cpt"
      using r f' by (auto simp: quiet_retry_def)
    show ?thesis using rdy m0 r l regs(2) 1 2 f' nq by blast
  qed
  have booted:
    "(case PageTable far_pool_state of
        Returned cpt s' \<Rightarrow>
          page_directory cpt = 0x201000 \<and> pmem s' 0x201004 = 2 \<and>
          fault_ready ((enable_paging (load cpt s'))\<lparr>cr2 := 0x400000\<rparr>) cpt \<and>
          (\<exists>s1. handle_fault () ((enable_paging (load cpt s'))\<lparr>cr2 := 0x400000\<rparr>) =
                  Returned () s1 \<and>
             last (console s1) = Puts ''Page fault handled\<newline> '' \<and> cr2 s1 = 0x400000 \<and>
             pmem s1 0x201004 = 0x800003 \<and> pmem s1 0x800000 = 0x400003 \<and>
             (\<exists>s2. handle_fault () s1 = Faulted 0x800000 s2)) \<and>
          \<not> quiet_retry () ((enable_paging (load cpt s'))\<lparr>cr2 := 0x400000\<rparr>) cpt
      | Faulted va s' \<Rightarrow> False)"
  proof -
    let ?b = far_pool_state
    let ?cpt = "\<lparr>page_directory = 0x201000\<rparr>"
    have off: "\<not> paging_on ?b" by (simp add: far_pool_state_def boot_state_def paging_on_def)
    have d: "get_frames (kernel_mem_pool ?b) = (513, [514, 2048])"
      by (simp add: far_pool_state_def boot_state_def)
    have t: "get_frames [514, 2048] = (514::word32, [2048])" "(514::word32) \<noteq> 0" by simp_all
    have dt: "(514::word32) * PAGE_SIZE \<noteq> 513 * PAGE_SIZE" by (simp add: PAGE_SIZE_def)
    obtain s' where r: "PageTable ?b = Returned ?cpt s'"
      and kp: "kernel_mem_pool s' = [2048]" and pp: "process_mem_pool s' = process_mem_pool ?b"
      and p0: "pmem s' 0x201000 = 0x202003"
      and C: "\<forall>j. 1 \<le> j \<and> j < 1023 \<longrightarrow> pmem s' (0x201000 + 4 * of_nat j) = 2"
      using PageTable_result[OF off d t] by (auto simp: PAGE_SIZE_def)
    obtain cpt' s'' where r': "PageTable ?b = Returned cpt' s''"
      and rdy': "fault_ready ((enable_paging (load cpt' s''))\<lparr>cr2 := 0x400000\<rparr>) cpt'"
      using boot_fault_ready[OF off d t dt, of "0x400000"] by auto
    define s0 where "s0 = (enable_paging (load ?cpt s'))\<lparr>cr2 := 0x400000\<rparr>"
    have rdy: "fault_ready s0 ?cpt" using r r' rdy' by (simp add: s0_def)
    have s0: "pmem s0 = pmem s'" "kernel_mem_pool s0 = [2048]"
      "process_mem_pool s0 = [1024, 1025]" "cr2 s0 = 0x400000" "cr3 s0 = 0x201000"
      using kp pp
      by (simp_all add: s0_def enable_paging_def load_def puts_def far_pool_state_def
          boot_state_def)
    have pd: "pd_index_of (cr2 s0) = 1" by (simp add: s0 pd_index_of_def)
    have pt: "pt_index_of (cr2 s0) = 0" by (simp add: s0 pt_index_of_def)
    have e1: "pmem s' 0x201004 = 2" using C[THEN spec, of 1] by simp
    have e2: "pmem s' 0x201008 = 2" using C[THEN spec, of 2] by simp
    have ab: "pmem s0 (page_directory ?cpt + 4 * pd_index_of (cr2 s0)) AND 1 = 0"
      by (simp add: s0 pd_index_of_def e1)
    have k: "get_frames (kernel_mem_pool s0) = (2048, [])" "(2048::word32) \<noteq> 0"
      "2048 * PAGE_SIZE \<noteq> page_directory ?cpt"
      by (simp_all add: s0 PAGE_SIZE_def)
    have e: "get_frames (process_mem_pool s0) = (1024, [1025])" by (simp add: s0)
    obtain s1 where r1: "handle_fault () s0 = Returned () s1"
      and regs: "cr0 s1 = cr0 s0" "cr2 s1 = cr2 s0" "cr3 s1 = cr3 s0"
        "current_page_table s1 = current_page_table s0"
      and l: "last (console s1) = Puts ''Page fault handled\<newline> ''"
      and A: "pmem s1 (page_directory ?cpt + 4 * pd_index_of (cr2 s0)) = 2048 * PAGE_SIZE OR 3"
      and B: "pmem s1 (2048 * PAGE_SIZE + 4 * pt_index_of (cr2 s0)) = PAGE_SIZE * 1024 OR 3"
      and F: "\<forall>a. a \<noteq> page_directory ?cpt + 4 * pd_index_of (cr2 s0) \<and>
                  (\<forall>j. j < 1024 \<longrightarrow> a \<noteq> 2048 * PAGE_SIZE + 4 * of_nat j) \<longrightarrow>
                  pmem s1 a = pmem s0 a"
      using handle_fault_miss_result[where r="()", OF rdy ab k e] by blast
    have 1: "pmem s1 0x201004 = 0x800003" using A by (simp add: pd PAGE_SIZE_def)
    have 2: "pmem s1 0x800000 = 0x400003" using B by (simp add: pt PAGE_SIZE_def)
    have F': "\<forall>a. a \<noteq> 0x201004 \<and> (\<forall>j. j < 1024 \<longrightarrow> a \<noteq> 0x800000 + 4 * of_nat j) \<longrightarrow>
                  pmem s1 a = pmem s0 a"
      using F by (simp add: pd PAGE_SIZE_def)
    have keep: "pmem s1 a = pmem s0 a" if "a \<noteq> 0x201004" "page_base a \<noteq> 0x800000" for a
    proof -
      have "a \<noteq> 0x800000 + 4 * of_nat j" if "j < 1024" for j
        using other_page[of "0x800000" a j] that \<open>page_base a \<noteq> 0x800000\<close>
        by (simp add: aligned_def)
      then show ?thesis using F' that(1) by simp
    qed
    have d2: "pmem s1 0x201008 = 2" using keep[of "0x201008"] e2 by (simp add: s0 page_base_def)
    from rdy have on: "paging_on s0" and c0: "current_page_table s0 = Some ?cpt"
      and idm: "translate s0 0x201004 = Some 0x201004"
      by (simp_all add: fault_ready_def pd)
    have wt: "walk_table s0 0x201004 \<noteq> 0x800000"
      by (simp add: walk_table_def s0 entry_at_def page_base_def p0)
    have ab0: "pmem s0 0x201004 AND 1 = 0" by (simp add: s0 e1)
    have tr1: "translate s1 0x201004 = Some 0x201004"
      using walk_unchanged[OF idm on s0(5) _ _ _ wt ab0 regs(1,3) F']
      by (simp add: aligned_def)
    have rg: "cr2 s1 = 0x400000" "cr3 s1 = 0x201000" "current_page_table s1 = Some ?cpt"
      "paging_on s1"
      using regs s0 c0 on by (simp_all add: paging_on_def)
    have tr1': "translate s1 (page_directory ?cpt + 4 * pd_index_of (cr2 s1)) = Some 0x201004"
      using tr1 rg by (simp add: pd_index_of_def)
    have pr: "pmem s1 0x201004 AND 1 \<noteq> 0" using 1 by simp
    have tr2: "translate s1 (page_base (pmem s1 0x201004) + 4 * pt_index_of (cr2 s1)) = None"
      using rg d2 1
      by (simp add: translate_def entry_at_def page_base_def pt_index_of_def Let_def)
    obtain s2 where f: "handle_fault () s1 =
        Faulted (page_base (pmem s1 0x201004) + 4 * pt_index_of (cr2 s1)) s2"
      using hit_table_unreachable[where r="()", OF rg(3) tr1' pr tr2] by blast
    have f': "handle_fault () s1 = Faulted 0x800000 s2"
      using f 1 rg by (simp add: page_base_def pt_index_of_def)
    have nq: "\<not> quiet_retry () s0 ?cpt"
      using r1 f' by (auto simp: quiet_retry_def)
    have ex: "\<exists>s1. handle_fault () s0 = Returned () s1 \<and>
             last (console s1) = Puts ''Page fault handled\<newline> '' \<and> cr2 s1 = 0x400000 \<and>
             pmem s1 0x201004 = 0x800003 \<and> pmem s1 0x800000 = 0x400003 \<and>
             (\<exists>s2. handle_fault () s1 = Faulted 0x800000 s2)"
      using r1 l rg(1) 1 2 f' by blast
    show ?thesis
      using r e1 rdy ex nq unfolding s0_def by simp
  qed
  from small booted show ?thesis by blast
qed

subsection \<open>C9\<close>

text \<open>
  C9.  From any state whatever, the memory the constructor or the fault handler leaves
  (on return or at a nested fault) comes from the memory it found by a sequence of stores
  each of which writes a word obeying the bit convention: privilege bit clear, and
  writable set whenever present is set.  So every word that differs afterwards obeys the
  convention.  Loading a table, enabling paging and initialising the paging system write
  no memory at all.
\<close>

theorem written_entries_obey_convention:
  "entries_written (pmem s) (pmem (final (PageTable s))) \<and>
   entries_written (pmem s) (pmem (final (handle_fault r s))) \<and>
   (\<forall>a. pmem (final (PageTable s)) a = pmem s a \<or> entry_ok (pmem (final (PageTable s)) a)) \<and>
   (\<forall>a. pmem (final (handle_fault r s)) a = pmem s a \<or>
        entry_ok (pmem (final (handle_fault r s)) a)) \<and>
   pmem (load cpt s) = pmem s \<and> pmem (enable_paging s) = pmem s \<and>
   pmem (init_paging kpool ppool sz s) = pmem s"
proof -
  have 1: "entries_written (pmem s) (pmem (final (PageTable s)))"
    by (rule PageTable_mem[of "entries_written (pmem s)"])
       (auto intro: entries_written.intros)
  have 2: "entries_written (pmem s) (pmem (final (handle_fault r s)))"
    by (rule handle_fault_mem[of "entries_written (pmem s)"])
       (auto intro: entries_written.intros)
  have 3: "pmem (load cpt s) = pmem s" by (simp add: load_def)
  have 4: "pmem (enable_paging s) = pmem s" by (simp add: enable_paging_def)
  have 5: "pmem (init_paging kpool ppool sz s) = pmem s" by (simp add: init_paging_def)
  show ?thesis
    using 1 2 3 4 5 entries_written_pointwise[OF 1] entries_written_pointwise[OF 2] by blast
qed

subsection \<open>C10\<close>

text \<open>
  C10.  On a directory miss (table active, kernel pool handing out a frame other than the
  directory's own) the answer of the process pool is installed unchecked: when that
  answer is the failure sentinel 0, the handler still returns normally, the new table's
  entry at the table index is 3 (present, writable, frame address 0), the faulting address
  now resolves to its page offset inside physical frame 0, and the last line printed is
  the one that reports the fault handled.
\<close>

theorem directory_miss_unchecked_process_frame:
  assumes "fault_ready s cpt"
    and "pmem s (page_directory cpt + 4 * pd_index_of (cr2 s)) AND 1 = 0"
    and "get_frames (kernel_mem_pool s) = (k, kp)" and "k \<noteq> 0"
    and "k * PAGE_SIZE \<noteq> page_directory cpt"
    and "get_frames (process_mem_pool s) = (0, pp)"
  shows "\<exists>s'. handle_fault r s = Returned () s' \<and>
           pmem s' (k * PAGE_SIZE + 4 * pt_index_of (cr2 s)) = 3 \<and>
           translate s' (cr2 s) = Some (cr2 s AND 0xFFF) \<and>
           last (console s') = Puts ''Page fault handled\<newline> ''"
proof -
  define D where "D = page_directory cpt"
  define N where "N = k * PAGE_SIZE"
  from assms(1) have on: "paging_on s" and cr: "cr3 s = D" and Da: "aligned D"
    by (simp_all add: fault_ready_def D_def)
  have Na: "aligned N" by (simp add: N_def aligned_frame)
  obtain s' where r: "handle_fault r s = Returned () s'"
    and regs: "cr0 s' = cr0 s" "cr3 s' = cr3 s"
    and l: "last (console s') = Puts ''Page fault handled\<newline> ''"
    and A: "pmem s' (D + 4 * pd_index_of (cr2 s)) = N OR 3"
    and B: "pmem s' (N + 4 * pt_index_of (cr2 s)) = PAGE_SIZE * 0 OR 3"
    using handle_fault_miss_result[OF assms, of r] unfolding D_def N_def by blast
  have B': "pmem s' (N + 4 * pt_index_of (cr2 s)) = 3" using B by simp
  have on': "paging_on s'" using on regs by (simp add: paging_on_def)
  have "translate s' (cr2 s) = Some (cr2 s AND 0xFFF)"
    using on' regs cr
    by (simp add: translate_def Let_def entry_at_pd[OF Da] A flags_present
          entry_at_pt[OF Na] B' page_base_three)
  with r l B' show ?thesis unfolding N_def by blast
qed

theorem directory_miss_unchecked_process_frame_witness:
  "fault_ready (demo_state\<lparr>process_mem_pool := []\<rparr>) \<lparr>page_directory = 0x1000\<rparr> \<and>
   (\<exists>s'. handle_fault () (demo_state\<lparr>process_mem_pool := []\<rparr>) = Returned () s' \<and>
      pmem s' 0x3000 = 3 \<and> translate s' 0x00400000 = Some 0 \<and>
      last (console s') = Puts ''Page fault handled\<newline> '')"
proof -
  let ?cpt = "\<lparr>page_directory = 0x1000\<rparr>"
  let ?s = "demo_state\<lparr>process_mem_pool := []\<rparr>"
  have pd: "pd_index_of (cr2 ?s) = 1"
    by (simp add: demo_state_def pd_index_of_def)
  have pt: "pt_index_of (cr2 ?s) = 0"
    by (simp add: demo_state_def pt_index_of_def)
  have c2: "cr2 ?s = 0x00400000" by (simp add: demo_state_def)
  have rdy: "fault_ready ?s ?cpt"
    by (simp add: fault_ready_def pd aligned_def)
       (simp add: demo_state_def paging_on_def demo_mem_def translate_def entry_at_def
          page_base_def pd_index_of_def Let_def)
  have ab: "pmem ?s (page_directory ?cpt + 4 * pd_index_of (cr2 ?s)) AND 1 = 0"
    by (simp add: demo_state_def demo_mem_def pd_index_of_def)
  have k: "get_frames (kernel_mem_pool ?s) = (3, [])" "(3::word32) \<noteq> 0"
    "3 * PAGE_SIZE \<noteq> page_directory ?cpt"
    by (simp_all add: demo_state_def PAGE_SIZE_def)
  have e: "get_frames (process_mem_pool ?s) = (0, [])"
    by simp
  from directory_miss_unchecked_process_frame[where r="()", OF rdy ab k e] rdy
  show ?thesis by (simp add: c2 pt_index_of_def PAGE_SIZE_def)
qed

end
